theory Spec2Isabelle
  imports Main
begin

section \<open>Strings and numbers of the JavaScript source\<close>

text \<open>
  Backend identities are built by the template string \<^verbatim>\<open>`${s.host}:${s.port}`\<close>;
  a port is a non-negative integer and is rendered in decimal.
\<close>

definition digit_char :: "nat \<Rightarrow> char" where
  "digit_char d = ''0123456789'' ! d"

function string_of_nat :: "nat \<Rightarrow> string" where
  "string_of_nat n =
     (if n < 10 then [digit_char n]
      else string_of_nat (n div 10) @ [digit_char (n mod 10)])"
  by pat_completeness auto
termination
  by (relation "measure (\<lambda>n. n)") auto

declare string_of_nat.simps [simp del]

definition make_id :: "string \<Rightarrow> nat \<Rightarrow> string" where
  "make_id h pt = h @ '':'' @ string_of_nat pt"

text \<open>\<^verbatim>\<open>String.prototype.includes\<close>: does \<open>sub\<close> occur in \<open>s\<close> as a contiguous run.\<close>

fun startsWith :: "string \<Rightarrow> string \<Rightarrow> bool" where
  "startsWith s [] = True"
| "startsWith [] (c # cs) = False"
| "startsWith (x # xs) (c # cs) = (x = c \<and> startsWith xs cs)"

fun str_includes :: "string \<Rightarrow> string \<Rightarrow> bool" where
  "str_includes [] sub = (sub = [])"
| "str_includes (x # xs) sub = (startsWith (x # xs) sub \<or> str_includes xs sub)"

text \<open>
  The remainder operator \<^verbatim>\<open>%\<close> of JavaScript takes the sign of the dividend.
  Every use in the source has a divisor that is a positive array length.
\<close>

definition js_rem :: "int \<Rightarrow> int \<Rightarrow> int" where
  "js_rem a b = sgn a * (\<bar>a\<bar> mod \<bar>b\<bar>)"

text \<open>
  Reading \<^verbatim>\<open>arr[i]\<close>: an index outside the array yields \<^verbatim>\<open>undefined\<close>,
  which is \<open>None\<close> here.
\<close>

definition js_nth :: "'a list \<Rightarrow> int \<Rightarrow> 'a option" where
  "js_nth xs i = (if 0 \<le> i \<and> i < int (length xs) then Some (xs ! nat i) else None)"

section \<open>Data model of \<^verbatim>\<open>serverPool.js\<close>\<close>

text \<open>An entry of \<^verbatim>\<open>config.servers\<close>; \<^verbatim>\<open>weight\<close> may be absent.\<close>

record serverConfig =
  cfg_host :: string
  cfg_port :: nat
  cfg_weight :: "int option"

text \<open>
  A backend object as the constructor and \<^verbatim>\<open>updateServers\<close> build it.
  The field \<^verbatim>\<open>id\<close> is named \<open>sid\<close>.
\<close>

record server =
  host :: string
  port :: nat
  sid :: string
  healthy :: bool
  weight :: int
  currentWeight :: int
  activeConnections :: int

text \<open>The part of \<^verbatim>\<open>healthCheckConfig\<close> that the pool reads.\<close>

record healthCheckConfig =
  hc_enabled :: bool
  hc_expectStatus :: "int option"
  hc_expectBody :: "string option"

text \<open>
  Backend objects are shared by reference between \<^verbatim>\<open>this.servers\<close>,
  \<^verbatim>\<open>this.weightedServerList\<close> and the callers that hold a picked backend, and they are
  mutated in place. The pool therefore carries an object store: \<open>heap\<close> maps a
  reference to the object it names, \<open>next_ref\<close> is the first reference never handed out,
  and both arrays hold references. \<open>timerRunning\<close> stands for a non-null
  \<^verbatim>\<open>healthCheckIntervalId\<close>.
\<close>

type_synonym ref = nat

record pool =
  heap :: "ref \<Rightarrow> server"
  next_ref :: ref
  servers :: "ref list"
  algorithm :: string
  healthCheck :: healthCheckConfig
  timerRunning :: bool
  currentIndex :: int
  gcdWeight :: int
  maxWeight :: int
  weightedServerList :: "ref list"
  totalWeight :: int

text \<open>Content of a store cell that was never allocated; no array of a pool refers to one.\<close>

definition blank_server :: server where
  "blank_server = \<lparr>host = [], port = 0, sid = [], healthy = False, weight = 0,
     currentWeight = 0, activeConnections = 0\<rparr>"

section \<open>Weight helpers\<close>

function js_gcd :: "int \<Rightarrow> int \<Rightarrow> int" where
  "js_gcd a b = (if b = 0 then a else js_gcd b (js_rem a b))"
  by pat_completeness auto
termination
proof (relation "measure (\<lambda>(a, b). nat \<bar>b\<bar>)")
  show "wf (measure (\<lambda>(a, b). nat \<bar>b\<bar>))" by simp
next
  fix a b :: int
  assume "b \<noteq> 0"
  then have "\<bar>a\<bar> mod \<bar>b\<bar> < \<bar>b\<bar>" by simp
  moreover have "0 \<le> \<bar>a\<bar> mod \<bar>b\<bar>"
    by (cases "b = 0") simp_all
  then have "\<bar>js_rem a b\<bar> = \<bar>a\<bar> mod \<bar>b\<bar>"
    by (cases "a = 0") (simp_all add: js_rem_def abs_mult abs_sgn_eq)
  ultimately show "((b, js_rem a b), (a, b)) \<in> measure (\<lambda>(a, b). nat \<bar>b\<bar>)"
    by simp
qed

declare js_gcd.simps [simp del]

definition getHealthyServers :: "pool \<Rightarrow> ref list" where
  "getHealthyServers p = filter (\<lambda>r. healthy (heap p r)) (servers p)"

definition getServerById :: "pool \<Rightarrow> string \<Rightarrow> ref option" where
  "getServerById p i = find (\<lambda>r. sid (heap p r) = i) (servers p)"

definition calculateWeights :: "pool \<Rightarrow> pool" where
  "calculateWeights p =
     (let healthyServers = getHealthyServers p in
      if length healthyServers = 0 then p
      else
        let ws = map (\<lambda>r. weight (heap p r)) healthyServers in
        p\<lparr>gcdWeight := foldl js_gcd (hd ws) ws,
          maxWeight := foldl max (hd ws) (tl ws),
          totalWeight := foldl (+) 0 ws\<rparr>)"

text \<open>
  \<^verbatim>\<open>buildWeightedList\<close> walks every configured server, healthy or not, and pushes it
  while \<^verbatim>\<open>i < server.weight\<close>: \<open>nat w\<close> times for an integer weight \<open>w\<close>.
\<close>

definition expandWeights :: "(ref \<Rightarrow> server) \<Rightarrow> ref list \<Rightarrow> ref list" where
  "expandWeights h rs = concat (map (\<lambda>r. replicate (nat (weight (h r))) r) rs)"

definition buildWeightedList :: "pool \<Rightarrow> pool" where
  "buildWeightedList p = p\<lparr>weightedServerList := expandWeights (heap p) (servers p)\<rparr>"

definition recalculateWeightsIfNeeded :: "pool \<Rightarrow> pool" where
  "recalculateWeightsIfNeeded p =
     (if str_includes (algorithm p) ''WEIGHTED'' then buildWeightedList (calculateWeights p) else p)"

section \<open>Connection tracking\<close>

definition incrementConnections :: "pool \<Rightarrow> string \<Rightarrow> pool" where
  "incrementConnections p serverId =
     (case getServerById p serverId of
        None \<Rightarrow> p
      | Some r \<Rightarrow>
          p\<lparr>heap := (heap p)(r := (heap p r)\<lparr>activeConnections :=
               activeConnections (heap p r) + 1\<rparr>)\<rparr>)"

definition decrementConnections :: "pool \<Rightarrow> string \<Rightarrow> pool" where
  "decrementConnections p serverId =
     (case getServerById p serverId of
        None \<Rightarrow> p
      | Some r \<Rightarrow>
          if activeConnections (heap p r) > 0
          then p\<lparr>heap := (heap p)(r := (heap p r)\<lparr>activeConnections :=
                 activeConnections (heap p r) - 1\<rparr>)\<rparr>
          else p)"

section \<open>Selection: \<^verbatim>\<open>getNextServer\<close>\<close>

text \<open>
  A sticky id is used when it is truthy: present and not the empty string.
\<close>

definition truthy :: "string option \<Rightarrow> bool" where
  "truthy v = (case v of None \<Rightarrow> False | Some s \<Rightarrow> s \<noteq> [])"

definition stickyTarget :: "pool \<Rightarrow> string option \<Rightarrow> ref option" where
  "stickyTarget p stickySessionId =
     (if truthy stickySessionId
      then find (\<lambda>r. sid (heap p r) = the stickySessionId) (getHealthyServers p)
      else None)"

text \<open>
  The fallback of lines 93 to 101: when the policy name contains \<^verbatim>\<open>WEIGHTED\<close> and no
  entry of the weighted list is healthy, the healthy servers are read again; if there
  are none the call returns nothing (\<open>None\<close> here), otherwise the field
  \<^verbatim>\<open>algorithm\<close> is overwritten.
\<close>

definition healthyWeightedList :: "pool \<Rightarrow> ref list" where
  "healthyWeightedList p = filter (\<lambda>ws. healthy (heap p ws)) (weightedServerList p)"

definition weightedFallback :: "pool \<Rightarrow> pool option" where
  "weightedFallback p =
     (if str_includes (algorithm p) ''WEIGHTED'' \<and> length (healthyWeightedList p) = 0
      then (if length (getHealthyServers p) = 0 then None
            else Some (p\<lparr>algorithm := ''ROUND_ROBIN''\<rparr>))
      else Some p)"

text \<open>
  The \<^verbatim>\<open>switch\<close> on the policy. \<open>rnd\<close> is the value of
  \<^verbatim>\<open>Math.floor(Math.random() * n)\<close> drawn by the call, supplied from outside; nothing
  is assumed about it. \<open>hw\<close> is the filtered weighted list computed before the
  fallback.
\<close>

definition applyAlgorithm :: "pool \<Rightarrow> ref list \<Rightarrow> int \<Rightarrow> ref option \<times> pool" where
  "applyAlgorithm p hw rnd =
     (let healthyServers = getHealthyServers p in
      if algorithm p = ''RANDOM'' then (js_nth healthyServers rnd, p)
      else if algorithm p = ''WEIGHTED_RANDOM'' then
        (if length hw > 0 then (js_nth hw rnd, p) else (None, p))
      else if algorithm p = ''WEIGHTED_ROUND_ROBIN'' then
        (if length hw > 0 then
           (let i = js_rem (currentIndex p + 1) (int (length hw))
            in (js_nth hw i, p\<lparr>currentIndex := i\<rparr>))
         else (None, p))
      else
        (let i = js_rem (currentIndex p + 1) (int (length healthyServers))
         in (js_nth healthyServers i, p\<lparr>currentIndex := i\<rparr>)))"

definition getNextServer :: "pool \<Rightarrow> string option \<Rightarrow> int \<Rightarrow> ref option \<times> pool" where
  "getNextServer p stickySessionId rnd =
     (if length (getHealthyServers p) = 0 then (None, p)
      else
        case stickyTarget p stickySessionId of
          Some targetServer \<Rightarrow>
            (Some targetServer, incrementConnections p (sid (heap p targetServer)))
        | None \<Rightarrow>
            (case weightedFallback p of
               None \<Rightarrow> (None, p)
             | Some p1 \<Rightarrow>
                 (let (chosen, p2) = applyAlgorithm p1 (healthyWeightedList p) rnd;
                      chosenServer =
                        (case chosen of
                           Some c \<Rightarrow> Some c
                         | None \<Rightarrow>
                             if length (getHealthyServers p2) > 0
                             then js_nth (getHealthyServers p2) 0 else None)
                  in case chosenServer of
                       Some c \<Rightarrow> (Some c, incrementConnections p2 (sid (heap p2 c)))
                     | None \<Rightarrow> (None, p2))))"

section \<open>Health transitions\<close>

definition setHealthy :: "pool \<Rightarrow> ref \<Rightarrow> bool \<Rightarrow> pool" where
  "setHealthy p r b = p\<lparr>heap := (heap p)(r := (heap p r)\<lparr>healthy := b\<rparr>)\<rparr>"

text \<open>\<^verbatim>\<open>markServerUnhealthy\<close>: the rebuild of the weighted list is commented out.\<close>

definition markServerUnhealthy :: "pool \<Rightarrow> ref \<Rightarrow> pool" where
  "markServerUnhealthy p r = setHealthy p r False"

text \<open>
  The verdict of a probe that got a response (the \<^verbatim>\<open>'end'\<close> callback of
  \<^verbatim>\<open>checkSingleServer\<close>), and the callback itself.
\<close>

definition probeVerdict :: "healthCheckConfig \<Rightarrow> int \<Rightarrow> string \<Rightarrow> bool" where
  "probeVerdict hc statusCode body =
     (let expectedStatus = (case hc_expectStatus hc of None \<Rightarrow> 200 | Some c \<Rightarrow> c);
          isStatusOk = (statusCode = expectedStatus);
          isBodyOk = (case hc_expectBody hc of
                        None \<Rightarrow> True
                      | Some sub \<Rightarrow> sub = [] \<or> str_includes body sub)
      in isStatusOk \<and> isBodyOk)"

definition probeResponse :: "pool \<Rightarrow> ref \<Rightarrow> int \<Rightarrow> string \<Rightarrow> pool" where
  "probeResponse p r statusCode body =
     (let wasHealthy = healthy (heap p r);
          p1 = setHealthy p r (probeVerdict (healthCheck p) statusCode body)
      in if wasHealthy \<noteq> healthy (heap p1 r) \<and> healthy (heap p1 r)
         then recalculateWeightsIfNeeded p1 else p1)"

section \<open>Construction and reconfiguration\<close>

definition newServer :: "serverConfig \<Rightarrow> server" where
  "newServer s = \<lparr>host = cfg_host s, port = cfg_port s,
     sid = make_id (cfg_host s) (cfg_port s), healthy = True,
     weight = (case cfg_weight s of None \<Rightarrow> 1 | Some w \<Rightarrow> w),
     currentWeight = 0, activeConnections = 0\<rparr>"

text \<open>Allocation of a run of fresh objects, one per element, in order.\<close>

definition allocate :: "(ref \<Rightarrow> server) \<Rightarrow> ref \<Rightarrow> server list \<Rightarrow> (ref \<Rightarrow> server)" where
  "allocate h n objs = (\<lambda>r. if n \<le> r \<and> r < n + length objs then objs ! (r - n) else h r)"

definition stopHealthChecks :: "pool \<Rightarrow> pool" where
  "stopHealthChecks p = (if timerRunning p then p\<lparr>timerRunning := False\<rparr> else p)"

definition startHealthChecks :: "pool \<Rightarrow> pool" where
  "startHealthChecks p = p\<lparr>timerRunning := True\<rparr>"

definition ServerPool :: "serverConfig list \<Rightarrow> string \<Rightarrow> healthCheckConfig \<Rightarrow> pool" where
  "ServerPool cfgs alg hc =
     (let p0 = \<lparr>heap = allocate (\<lambda>r. blank_server) 0 (map newServer cfgs),
                next_ref = length cfgs,
                servers = [0 ..< length cfgs],
                algorithm = alg,
                healthCheck = hc,
                timerRunning = False,
                currentIndex = - 1,
                gcdWeight = 0,
                maxWeight = 0,
                weightedServerList = [],
                totalWeight = 0\<rparr>;
          p1 = (if str_includes alg ''WEIGHTED'' then buildWeightedList (calculateWeights p0) else p0)
      in if hc_enabled hc then startHealthChecks p1 else p1)"

text \<open>
  \<^verbatim>\<open>updateServers\<close>. The lookup table \<^verbatim>\<open>new Map(this.servers.map(s => [s.id, s]))\<close>
  keeps, for an id that occurs twice, the later server.
\<close>

definition existingServers :: "pool \<Rightarrow> string \<Rightarrow> ref option" where
  "existingServers p = foldl (\<lambda>m r. m(sid (heap p r) \<mapsto> r)) Map.empty (servers p)"

definition updatedServer :: "pool \<Rightarrow> serverConfig \<Rightarrow> server" where
  "updatedServer p sConfig =
     (let i = make_id (cfg_host sConfig) (cfg_port sConfig);
          existing = existingServers p i
      in \<lparr>host = cfg_host sConfig, port = cfg_port sConfig, sid = i,
           healthy = (case existing of Some e \<Rightarrow> healthy (heap p e) | None \<Rightarrow> True),
           weight = (case cfg_weight sConfig of None \<Rightarrow> 1 | Some w \<Rightarrow> w),
           currentWeight = (case existing of Some e \<Rightarrow> currentWeight (heap p e) | None \<Rightarrow> 0),
           activeConnections =
             (case existing of Some e \<Rightarrow> activeConnections (heap p e) | None \<Rightarrow> 0)\<rparr>)"

definition updateServers :: "pool \<Rightarrow> serverConfig list \<Rightarrow> pool" where
  "updateServers p newServersConfig =
     (let p0 = stopHealthChecks p;
          p1 = p0\<lparr>heap := allocate (heap p0) (next_ref p0) (map (updatedServer p0) newServersConfig),
                  next_ref := next_ref p0 + length newServersConfig,
                  servers := [next_ref p0 ..< next_ref p0 + length newServersConfig]\<rparr>;
          p2 = p1\<lparr>currentIndex := - 1\<rparr>;
          p3 = recalculateWeightsIfNeeded p2
      in if hc_enabled (healthCheck p3) then startHealthChecks p3 else p3)"

section \<open>Sequences of calls\<close>

text \<open>
  Successive calls of \<^verbatim>\<open>getNextServer()\<close> with no sticky id, one per random draw of
  the list, and the backends they return.
\<close>

fun pickSeq :: "pool \<Rightarrow> int list \<Rightarrow> ref option list" where
  "pickSeq p [] = []"
| "pickSeq p (rnd # rnds) =
     (case getNextServer p None rnd of (c, p') \<Rightarrow> c # pickSeq p' rnds)"

text \<open>
  What can happen to a pool between two moments: a pick, a release, the two health
  transitions, the end of a probe sweep (\<^verbatim>\<open>checkHealth\<close> after
  \<^verbatim>\<open>Promise.all\<close>) and a reconfiguration. The probes that a timer tick or
  \<^verbatim>\<open>startHealthChecks\<close> sends answer later, each as a \<open>ProbeResponse\<close> (a
  response was read) or a \<open>MarkUnhealthy\<close> (error or timeout) on the object the probe
  was sent for. \<open>step\<close> gives the backend a pick returned (nothing for the other
  operations) and the pool afterwards.
\<close>

datatype operation =
    Pick "string option" int
  | Release string
  | MarkUnhealthy ref
  | ProbeResponse ref int string
  | SweepDone
  | UpdateServers "serverConfig list"

fun step :: "pool \<Rightarrow> operation \<Rightarrow> ref option \<times> pool" where
  "step p (Pick stickySessionId rnd) = getNextServer p stickySessionId rnd"
| "step p (Release serverId) = (None, decrementConnections p serverId)"
| "step p (MarkUnhealthy r) = (None, markServerUnhealthy p r)"
| "step p (ProbeResponse r statusCode body) = (None, probeResponse p r statusCode body)"
| "step p SweepDone = (None, recalculateWeightsIfNeeded p)"
| "step p (UpdateServers cfgs) = (None, updateServers p cfgs)"

fun run :: "pool \<Rightarrow> operation list \<Rightarrow> ref option list \<times> pool" where
  "run p [] = ([], p)"
| "run p (x # xs) =
     (case step p x of (c, p') \<Rightarrow> (case run p' xs of (cs, q) \<Rightarrow> (c # cs, q)))"

text \<open>
  The identities of the backends that the picks of a run return, each read when the
  pick returns (nothing for the other operations and for a pick that returns nothing).
\<close>

fun pickedIds :: "pool \<Rightarrow> operation list \<Rightarrow> string option list" where
  "pickedIds p [] = []"
| "pickedIds p (x # xs) =
     (case step p x of (c, p') \<Rightarrow> map_option (\<lambda>r. sid (heap p' r)) c # pickedIds p' xs)"

section \<open>Request lifecycle of \<^verbatim>\<open>worker.js\<close>\<close>

text \<open>
  \<^verbatim>\<open>requestHandler\<close> up to the call of \<^verbatim>\<open>proxy.web\<close>: the sticky id is read from the
  cookie when sticky sessions are enabled, a backend is picked, and the cookie is set
  when the picked backend is not the one the cookie named.
\<close>

datatype routed =
    ServiceUnavailable
  | Proxied ref "string option"

definition requestHandler :: "bool \<Rightarrow> string option \<Rightarrow> pool \<Rightarrow> int \<Rightarrow> routed \<times> pool" where
  "requestHandler stickyEnabled cookieValue p rnd =
     (let stickySessionId = (if stickyEnabled then cookieValue else None)
      in case getNextServer p stickySessionId rnd of
           (None, p') \<Rightarrow> (ServiceUnavailable, p')
         | (Some targetServer, p') \<Rightarrow>
             (Proxied targetServer
                (if stickyEnabled \<and> stickySessionId \<noteq> Some (sid (heap p' targetServer))
                 then Some (sid (heap p' targetServer)) else None), p'))"

text \<open>
  The callbacks a proxied request leaves behind, each with what it does to the pool:
  the error callback passed to \<^verbatim>\<open>proxy.web\<close>, the \<^verbatim>\<open>'finish'\<close> listener of the
  response, the \<^verbatim>\<open>'close'\<close> listener of the request (with the value of
  \<^verbatim>\<open>res.writableEnded\<close> it reads), and the global \<^verbatim>\<open>proxy.on('error')\<close> listener
  (with the \<^verbatim>\<open>host\<close> and \<^verbatim>\<open>port\<close> of the target it is handed).
\<close>

datatype lifecycle_event =
    ProxyCallbackError
  | ResponseFinish
  | RequestClose bool
  | ProxyErrorEvent "string option" "string option"

fun onEvent :: "pool \<Rightarrow> ref \<Rightarrow> lifecycle_event \<Rightarrow> pool" where
  "onEvent p targetServer ProxyCallbackError =
     decrementConnections p (sid (heap p targetServer))"
| "onEvent p targetServer ResponseFinish =
     decrementConnections p (sid (heap p targetServer))"
| "onEvent p targetServer (RequestClose writableEnded) =
     (if \<not> writableEnded then decrementConnections p (sid (heap p targetServer)) else p)"
| "onEvent p targetServer (ProxyErrorEvent targetHost targetPort) =
     (if truthy targetHost \<and> truthy targetPort then
        (let serverId = the targetHost @ '':'' @ the targetPort
         in case getServerById p serverId of
              Some ts \<Rightarrow> decrementConnections (markServerUnhealthy p ts) serverId
            | None \<Rightarrow> p)
      else p)"

section \<open>Invariants of the data model\<close>

text \<open>
  Backend identities are unique within a pool and have the form \<open>host:port\<close>; under a
  weighted policy the weighted list is the expansion of the current server array; the
  cursor never drops below its initial value; every server of the pool is allocated.
\<close>

definition unique_ids :: "pool \<Rightarrow> bool" where
  "unique_ids p = distinct (map (\<lambda>r. sid (heap p r)) (servers p))"

definition ids_formed :: "pool \<Rightarrow> bool" where
  "ids_formed p =
     list_all (\<lambda>r. sid (heap p r) = make_id (host (heap p r)) (port (heap p r))) (servers p)"

definition weighted_in_sync :: "pool \<Rightarrow> bool" where
  "weighted_in_sync p =
     (\<not> str_includes (algorithm p) ''WEIGHTED'' \<or>
      weightedServerList p = expandWeights (heap p) (servers p))"

definition pool_inv :: "pool \<Rightarrow> bool" where
  "pool_inv p =
     (unique_ids p \<and> ids_formed p \<and> weighted_in_sync p \<and> - 1 \<le> currentIndex p \<and>
      list_all (\<lambda>r. r < next_ref p) (servers p))"

text \<open>
  \<open>counters_only p q\<close>: the pool \<open>q\<close> is \<open>p\<close> except, at most, for the
  \<^verbatim>\<open>activeConnections\<close> of some backends.
\<close>

definition counters_only :: "pool \<Rightarrow> pool \<Rightarrow> bool" where
  "counters_only p q =
     (q = p\<lparr>heap := heap q\<rparr> \<and>
      (\<forall>r. heap q r = (heap p r)\<lparr>activeConnections := activeConnections (heap q r)\<rparr>))"

text \<open>The identities a list of configuration entries gives its backends.\<close>

definition config_ids :: "serverConfig list \<Rightarrow> string list" where
  "config_ids cfgs = map (\<lambda>c. make_id (cfg_host c) (cfg_port c)) cfgs"

text \<open>
  An operation that keeps the identities unique: a reconfiguration whose entries have
  pairwise different \<open>host:port\<close>.
\<close>

fun valid_operation :: "operation \<Rightarrow> bool" where
  "valid_operation (UpdateServers cfgs) = distinct (config_ids cfgs)"
| "valid_operation x = True"

text \<open>
  What can make the identity \<open>i\<close> selectable again in the pool \<open>p\<close>: a probe
  response with a good verdict for an object that carries \<open>i\<close>, or a reconfiguration
  that lists \<open>i\<close> while no server of the pool has it, which creates a new backend of
  that identity (\<^verbatim>\<open>updateServers\<close> creates it healthy). A run is undisturbed for
  \<open>i\<close> when none of its operations does that in the pool it meets, and its
  reconfigurations never name one \<open>host:port\<close> twice. A reconfiguration that keeps
  \<open>i\<close>, and one that drops it for good, leave the run undisturbed.
\<close>

fun brings_back :: "pool \<Rightarrow> string \<Rightarrow> operation \<Rightarrow> bool" where
  "brings_back p i (ProbeResponse r statusCode body) =
     (sid (heap p r) = i \<and> probeVerdict (healthCheck p) statusCode body)"
| "brings_back p i (UpdateServers cfgs) = (i \<in> set (config_ids cfgs) \<and> getServerById p i = None)"
| "brings_back p i x = False"

fun undisturbed :: "pool \<Rightarrow> string \<Rightarrow> operation list \<Rightarrow> bool" where
  "undisturbed p i [] = True"
| "undisturbed p i (x # xs) =
     (valid_operation x \<and> \<not> brings_back p i x \<and> undisturbed (snd (step p x)) i xs)"

text \<open>No healthy server of the pool has the identity \<open>i\<close>.\<close>

definition id_down :: "pool \<Rightarrow> string \<Rightarrow> bool" where
  "id_down p i = list_all (\<lambda>r. sid (heap p r) \<noteq> i \<or> \<not> healthy (heap p r)) (servers p)"

text \<open>
  A pool ready for weighted round robin: that policy, the invariants of the data model,
  and every server healthy.
\<close>

definition wrr_ready :: "pool \<Rightarrow> bool" where
  "wrr_ready p =
     (algorithm p = ''WEIGHTED_ROUND_ROBIN'' \<and> pool_inv p \<and>
      list_all (\<lambda>r. healthy (heap p r)) (servers p))"

section \<open>Concrete pools\<close>

text \<open>The backends and health check of \<^verbatim>\<open>config.js\<close> with its default environment.\<close>

definition config_servers :: "serverConfig list" where
  "config_servers =
     [\<lparr>cfg_host = ''localhost'', cfg_port = 3001, cfg_weight = Some 5\<rparr>,
      \<lparr>cfg_host = ''localhost'', cfg_port = 3002, cfg_weight = Some 3\<rparr>,
      \<lparr>cfg_host = ''localhost'', cfg_port = 3003, cfg_weight = Some 1\<rparr>,
      \<lparr>cfg_host = ''localhost'', cfg_port = 3004, cfg_weight = Some 1\<rparr>]"

definition config_healthCheck :: healthCheckConfig where
  "config_healthCheck = \<lparr>hc_enabled = True, hc_expectStatus = Some 200, hc_expectBody = None\<rparr>"

definition fresh_pool :: "string \<Rightarrow> pool" where
  "fresh_pool alg = ServerPool config_servers alg config_healthCheck"

text \<open>The same pool after its second backend, \<open>localhost:3002\<close>, was marked unhealthy.\<close>

definition degraded_pool :: "string \<Rightarrow> pool" where
  "degraded_pool alg = markServerUnhealthy (fresh_pool alg) 1"

text \<open>
  The degraded pool with one request in flight on the unhealthy backend, and a
  replacement configuration that keeps that backend and brings in a new one.
\<close>

definition loaded_pool :: pool where
  "loaded_pool = incrementConnections (degraded_pool ''ROUND_ROBIN'') ''localhost:3002''"

definition reconfig_servers :: "serverConfig list" where
  "reconfig_servers =
     [\<lparr>cfg_host = ''localhost'', cfg_port = 3002, cfg_weight = None\<rparr>,
      \<lparr>cfg_host = ''localhost'', cfg_port = 3005, cfg_weight = Some 2\<rparr>]"

text \<open>
  A run on the pool of \<^verbatim>\<open>config.js\<close> after its first backend was marked
  unhealthy: sticky and plain picks, a failing probe of that backend, a reload of the
  same configuration, and a good probe of another backend.
\<close>

definition reload_trace :: "operation list" where
  "reload_trace =
     [Pick (Some ''localhost:3001'') 0, ProbeResponse 0 500 ''down'',
      UpdateServers config_servers, Pick (Some ''localhost:3001'') 0,
      ProbeResponse 1 200 ''OK'', SweepDone, Pick None 0]"

text \<open>
  A pool under weighted round robin whose first backend has weight \<open>0\<close>, as a
  configuration that drains it would give.
\<close>

definition drain_servers :: "serverConfig list" where
  "drain_servers =
     [\<lparr>cfg_host = ''localhost'', cfg_port = 3001, cfg_weight = Some 0\<rparr>,
      \<lparr>cfg_host = ''localhost'', cfg_port = 3002, cfg_weight = Some 2\<rparr>]"

definition drain_pool :: pool where
  "drain_pool = ServerPool drain_servers ''WEIGHTED_ROUND_ROBIN'' config_healthCheck"

section \<open>Auxiliary facts\<close>

subsection \<open>Lists\<close>

lemma js_nth_mem: "js_nth xs i = Some c \<Longrightarrow> c \<in> set xs"
  by (auto simp: js_nth_def split: if_splits)

lemma js_nth_zero: "xs \<noteq> [] \<Longrightarrow> js_nth xs 0 = Some (hd xs)"
  by (cases xs) (simp_all add: js_nth_def)

lemma find_distinct_map:
  "distinct (map f xs) \<Longrightarrow> x \<in> set xs \<Longrightarrow> find (\<lambda>r. f r = f x) xs = Some x"
  by (induction xs) (auto simp: image_iff)

lemma find_mem: "find P xs = Some x \<Longrightarrow> x \<in> set xs \<and> P x"
  by (induction xs) (auto split: if_splits)

lemma set_expandWeights: "set (expandWeights h rs) \<subseteq> set rs"
  by (auto simp: expandWeights_def)

lemma filter_expandWeights:
  "filter P (expandWeights h rs) = expandWeights h (filter P rs)"
  by (induction rs) (simp_all add: expandWeights_def)

subsection \<open>Frames of the counters\<close>

lemma getServerById_mem: "getServerById p i = Some r \<Longrightarrow> r \<in> set (servers p) \<and> sid (heap p r) = i"
  unfolding getServerById_def by (drule find_mem) simp

lemma getServerById_unique:
  "unique_ids p \<Longrightarrow> c \<in> set (servers p) \<Longrightarrow> getServerById p (sid (heap p c)) = Some c"
  unfolding getServerById_def unique_ids_def by (rule find_distinct_map)

lemma counters_only_refl: "counters_only p p"
  by (simp add: counters_only_def)

lemma counters_only_trans: "counters_only p q \<Longrightarrow> counters_only q r \<Longrightarrow> counters_only p r"
  unfolding counters_only_def
proof (intro conjI allI)
  assume a: "q = p\<lparr>heap := heap q\<rparr> \<and> (\<forall>r. heap q r = (heap p r)\<lparr>activeConnections := activeConnections (heap q r)\<rparr>)"
    and b: "r = q\<lparr>heap := heap r\<rparr> \<and> (\<forall>ra. heap r ra = (heap q ra)\<lparr>activeConnections := activeConnections (heap r ra)\<rparr>)"
  from a have q: "q = p\<lparr>heap := heap q\<rparr>" by simp
  from b have r: "r = q\<lparr>heap := heap r\<rparr>" by simp
  have "r = (p\<lparr>heap := heap q\<rparr>)\<lparr>heap := heap r\<rparr>" using q r by simp
  then show "r = p\<lparr>heap := heap r\<rparr>" by simp
  fix x
  from a have "heap q x = (heap p x)\<lparr>activeConnections := activeConnections (heap q x)\<rparr>" by simp
  moreover from b have "heap r x = (heap q x)\<lparr>activeConnections := activeConnections (heap r x)\<rparr>" by simp
  ultimately have "heap r x = ((heap p x)\<lparr>activeConnections := activeConnections (heap q x)\<rparr>)\<lparr>activeConnections := activeConnections (heap r x)\<rparr>"
    by simp
  then show "heap r x = (heap p x)\<lparr>activeConnections := activeConnections (heap r x)\<rparr>" by simp
qed

lemma counters_only_fields:
  assumes "counters_only p q"
  shows "servers q = servers p" "algorithm q = algorithm p" "currentIndex q = currentIndex p"
    "weightedServerList q = weightedServerList p" "next_ref q = next_ref p"
    "healthCheck q = healthCheck p" "timerRunning q = timerRunning p"
    "gcdWeight q = gcdWeight p" "maxWeight q = maxWeight p" "totalWeight q = totalWeight p"
proof -
  from assms have e: "q = p\<lparr>heap := heap q\<rparr>" by (simp add: counters_only_def)
  show "servers q = servers p" by (subst e) simp
  show "algorithm q = algorithm p" by (subst e) simp
  show "currentIndex q = currentIndex p" by (subst e) simp
  show "weightedServerList q = weightedServerList p" by (subst e) simp
  show "next_ref q = next_ref p" by (subst e) simp
  show "healthCheck q = healthCheck p" by (subst e) simp
  show "timerRunning q = timerRunning p" by (subst e) simp
  show "gcdWeight q = gcdWeight p" by (subst e) simp
  show "maxWeight q = maxWeight p" by (subst e) simp
  show "totalWeight q = totalWeight p" by (subst e) simp
qed

lemma counters_only_heap:
  assumes "counters_only p q"
  shows "healthy (heap q r) = healthy (heap p r)" "sid (heap q r) = sid (heap p r)"
    "weight (heap q r) = weight (heap p r)" "host (heap q r) = host (heap p r)"
    "port (heap q r) = port (heap p r)" "currentWeight (heap q r) = currentWeight (heap p r)"
proof -
  from assms have e: "heap q r = (heap p r)\<lparr>activeConnections := activeConnections (heap q r)\<rparr>"
    by (simp add: counters_only_def)
  show "healthy (heap q r) = healthy (heap p r)" by (subst e) simp
  show "sid (heap q r) = sid (heap p r)" by (subst e) simp
  show "weight (heap q r) = weight (heap p r)" by (subst e) simp
  show "host (heap q r) = host (heap p r)" by (subst e) simp
  show "port (heap q r) = port (heap p r)" by (subst e) simp
  show "currentWeight (heap q r) = currentWeight (heap p r)" by (subst e) simp
qed

lemma counters_only_increment: "counters_only p (incrementConnections p i)"
  by (cases "getServerById p i") (simp_all add: incrementConnections_def counters_only_def)

lemma counters_only_decrement: "counters_only p (decrementConnections p i)"
  by (cases "getServerById p i") (simp_all add: decrementConnections_def counters_only_def)

lemma incrementConnections_target:
  "unique_ids p \<Longrightarrow> c \<in> set (servers p) \<Longrightarrow>
   incrementConnections p (sid (heap p c)) =
     p\<lparr>heap := (heap p)(c := (heap p c)\<lparr>activeConnections := activeConnections (heap p c) + 1\<rparr>)\<rparr>"
  by (simp add: incrementConnections_def getServerById_unique)


subsection \<open>Shape of a pick\<close>

lemma weightedFallback_healthy:
  "getHealthyServers p \<noteq> [] \<Longrightarrow>
   weightedFallback p =
     Some (if str_includes (algorithm p) ''WEIGHTED'' \<and> healthyWeightedList p = []
           then p\<lparr>algorithm := ''ROUND_ROBIN''\<rparr> else p)"
  by (simp add: weightedFallback_def)

lemma applyAlgorithm_fst:
  "fst (applyAlgorithm p hw rnd) = Some c \<Longrightarrow>
   c \<in> set (getHealthyServers p) \<or>
   ((algorithm p = ''WEIGHTED_RANDOM'' \<or> algorithm p = ''WEIGHTED_ROUND_ROBIN'') \<and> c \<in> set hw)"
  by (auto simp: applyAlgorithm_def Let_def split: if_splits dest: js_nth_mem)

lemma js_rem_nonneg: "0 \<le> a \<Longrightarrow> 0 \<le> js_rem a b"
proof -
  assume a: "0 \<le> a"
  have "0 \<le> \<bar>a\<bar> mod \<bar>b\<bar>" by (cases "b = 0") simp_all
  with a show ?thesis by (cases "a = 0") (simp_all add: js_rem_def)
qed

lemma js_rem_mod: "0 \<le> a \<Longrightarrow> 0 < b \<Longrightarrow> js_rem a b = a mod b"
  by (cases "a = 0") (simp_all add: js_rem_def)

lemma applyAlgorithm_currentIndex:
  "- 1 \<le> currentIndex p \<Longrightarrow> - 1 \<le> currentIndex (snd (applyAlgorithm p hw rnd))"
  using js_rem_nonneg [of "currentIndex p + 1"]
  by (auto simp: applyAlgorithm_def Let_def intro: order_trans [of "- 1" 0])

lemma applyAlgorithm_snd:
  "snd (applyAlgorithm p hw rnd) = p\<lparr>currentIndex := currentIndex (snd (applyAlgorithm p hw rnd))\<rparr>"
  by (simp add: applyAlgorithm_def Let_def)

text \<open>The pool a pick works on once the sticky id has not matched, and the backend it settles on.\<close>

lemma getNextServer_policy:
  assumes h: "getHealthyServers p \<noteq> []" and s: "stickyTarget p sticky = None"
  obtains c p2 where
    "getNextServer p sticky rnd = (Some c, incrementConnections p2 (sid (heap p c)))"
    "p2 = p\<lparr>algorithm := algorithm p2, currentIndex := currentIndex p2\<rparr>"
    "c \<in> set (getHealthyServers p) \<or>
       (str_includes (algorithm p) ''WEIGHTED'' \<and> c \<in> set (healthyWeightedList p))"
    "algorithm p2 = algorithm p \<or> algorithm p2 = ''ROUND_ROBIN''"
    "- 1 \<le> currentIndex p \<longrightarrow> - 1 \<le> currentIndex p2"
proof -
  define p1 where "p1 = (if str_includes (algorithm p) ''WEIGHTED'' \<and> healthyWeightedList p = []
           then p\<lparr>algorithm := ''ROUND_ROBIN''\<rparr> else p)"
  define chosen where "chosen = fst (applyAlgorithm p1 (healthyWeightedList p) rnd)"
  define p2 where "p2 = snd (applyAlgorithm p1 (healthyWeightedList p) rnd)"
  define c where "c = (case chosen of Some c \<Rightarrow> c | None \<Rightarrow> hd (getHealthyServers p))"
  have p1: "p1 = p\<lparr>algorithm := algorithm p1\<rparr>" by (simp add: p1_def)
  have p2: "p2 = p1\<lparr>currentIndex := currentIndex p2\<rparr>"
    unfolding p2_def by (rule applyAlgorithm_snd)
  have alg2: "algorithm p2 = algorithm p1" by (subst p2) simp
  have p2': "p2 = p\<lparr>algorithm := algorithm p2, currentIndex := currentIndex p2\<rparr>"
    by (subst p2, subst p1) (simp add: alg2)
  have hs1: "getHealthyServers p1 = getHealthyServers p"
    by (simp add: p1_def getHealthyServers_def)
  have hs2: "getHealthyServers p2 = getHealthyServers p"
    by (subst p2') (simp add: getHealthyServers_def)
  have heap2: "heap p2 = heap p" by (subst p2') simp
  have res: "getNextServer p sticky rnd = (Some c, incrementConnections p2 (sid (heap p c)))"
    using h s
    by (cases chosen)
      (simp_all add: getNextServer_def weightedFallback_healthy p1_def [symmetric] split_beta
        chosen_def [symmetric] p2_def [symmetric] hs2 heap2 js_nth_zero c_def Let_def)
  have mem: "c \<in> set (getHealthyServers p) \<or>
       (str_includes (algorithm p) ''WEIGHTED'' \<and> c \<in> set (healthyWeightedList p))"
  proof (cases chosen)
    case None
    then show ?thesis using h by (simp add: c_def)
  next
    case (Some x)
    then have cx: "c = x" by (simp add: c_def)
    from Some have "fst (applyAlgorithm p1 (healthyWeightedList p) rnd) = Some x"
      by (simp add: chosen_def)
    from applyAlgorithm_fst [OF this]
    show ?thesis
    proof
      assume "x \<in> set (getHealthyServers p1)"
      then show ?thesis by (simp add: cx hs1)
    next
      assume a: "(algorithm p1 = ''WEIGHTED_RANDOM'' \<or> algorithm p1 = ''WEIGHTED_ROUND_ROBIN'') \<and>
        x \<in> set (healthyWeightedList p)"
      then have "healthyWeightedList p \<noteq> []" by auto
      then have "p1 = p" by (simp add: p1_def)
      with a have "str_includes (algorithm p) ''WEIGHTED''" by auto
      with a show ?thesis by (simp add: cx)
    qed
  qed
  have alg: "algorithm p2 = algorithm p \<or> algorithm p2 = ''ROUND_ROBIN''"
    by (simp add: alg2 p1_def)
  have "currentIndex p1 = currentIndex p" by (simp add: p1_def)
  then have cur: "- 1 \<le> currentIndex p \<longrightarrow> - 1 \<le> currentIndex p2"
    unfolding p2_def using applyAlgorithm_currentIndex [of p1] by simp
  from that [OF res p2' mem alg cur] show thesis .
qed


lemma getNextServer_empty: "getHealthyServers p = [] \<Longrightarrow> getNextServer p sticky rnd = (None, p)"
  by (simp add: getNextServer_def)

lemma stickyTarget_Some:
  "stickyTarget p sticky = Some t \<Longrightarrow> t \<in> set (getHealthyServers p) \<and> sticky = Some (sid (heap p t))"
  by (cases sticky) (auto simp: stickyTarget_def truthy_def split: if_splits dest: find_mem)

lemma getNextServer_sticky:
  "stickyTarget p sticky = Some t \<Longrightarrow>
   getNextServer p sticky rnd = (Some t, incrementConnections p (sid (heap p t)))"
  by (frule stickyTarget_Some) (auto simp: getNextServer_def)

lemma getNextServer_result:
  obtains (none) "getHealthyServers p = []" "getNextServer p sticky rnd = (None, p)"
  | (some) c p2 where
      "getHealthyServers p \<noteq> []"
      "getNextServer p sticky rnd = (Some c, incrementConnections p2 (sid (heap p c)))"
      "p2 = p\<lparr>algorithm := algorithm p2, currentIndex := currentIndex p2\<rparr>"
      "c \<in> set (getHealthyServers p) \<or>
         (str_includes (algorithm p) ''WEIGHTED'' \<and> c \<in> set (healthyWeightedList p))"
      "algorithm p2 = algorithm p \<or> algorithm p2 = ''ROUND_ROBIN''"
      "- 1 \<le> currentIndex p \<longrightarrow> - 1 \<le> currentIndex p2"
proof (cases "getHealthyServers p = []")
  case True
  then show ?thesis by (rule none) (simp add: getNextServer_empty True)
next
  case nonempty: False
  show ?thesis
  proof (cases "stickyTarget p sticky")
    case None
    from getNextServer_policy [OF nonempty None, of rnd] some [OF nonempty] show ?thesis by blast
  next
    case (Some t)
    have "p = p\<lparr>algorithm := algorithm p, currentIndex := currentIndex p\<rparr>" by simp
    moreover have "t \<in> set (getHealthyServers p)" using stickyTarget_Some [OF Some] by simp
    ultimately show ?thesis using getNextServer_sticky [OF Some, of rnd] some [OF nonempty] by blast
  qed
qed

lemma getNextServer_healthy:
  assumes "fst (getNextServer p sticky rnd) = Some c"
  shows "healthy (heap p c)"
proof (cases rule: getNextServer_result [of p sticky rnd])
  case none
  with assms show ?thesis by simp
next
  case (some c' p2)
  with assms have "c' = c" by simp
  with some(4) show ?thesis by (auto simp: getHealthyServers_def healthyWeightedList_def)
qed

lemma getNextServer_frame:
  "healthy (heap (snd (getNextServer p sticky rnd)) r) = healthy (heap p r)"
  "sid (heap (snd (getNextServer p sticky rnd)) r) = sid (heap p r)"
  "weight (heap (snd (getNextServer p sticky rnd)) r) = weight (heap p r)"
  "host (heap (snd (getNextServer p sticky rnd)) r) = host (heap p r)"
  "port (heap (snd (getNextServer p sticky rnd)) r) = port (heap p r)"
  "servers (snd (getNextServer p sticky rnd)) = servers p"
  "weightedServerList (snd (getNextServer p sticky rnd)) = weightedServerList p"
  "next_ref (snd (getNextServer p sticky rnd)) = next_ref p"
  "healthCheck (snd (getNextServer p sticky rnd)) = healthCheck p"
proof -
  have "\<exists>p2. counters_only p2 (snd (getNextServer p sticky rnd)) \<and>
      p2 = p\<lparr>algorithm := algorithm p2, currentIndex := currentIndex p2\<rparr>"
  proof (cases rule: getNextServer_result [of p sticky rnd])
    case none
    have "p = p\<lparr>algorithm := algorithm p, currentIndex := currentIndex p\<rparr>" by simp
    then show ?thesis using none counters_only_refl [of p] by auto
  next
    case (some c p2)
    then show ?thesis using counters_only_increment [of p2] by auto
  qed
  then obtain p2 where c: "counters_only p2 (snd (getNextServer p sticky rnd))"
    and p2: "p2 = p\<lparr>algorithm := algorithm p2, currentIndex := currentIndex p2\<rparr>" by blast
  have h: "heap p2 = heap p" "servers p2 = servers p" "weightedServerList p2 = weightedServerList p"
    "next_ref p2 = next_ref p" "healthCheck p2 = healthCheck p"
    by (subst p2, simp)+
  show "healthy (heap (snd (getNextServer p sticky rnd)) r) = healthy (heap p r)"
    "sid (heap (snd (getNextServer p sticky rnd)) r) = sid (heap p r)"
    "weight (heap (snd (getNextServer p sticky rnd)) r) = weight (heap p r)"
    "host (heap (snd (getNextServer p sticky rnd)) r) = host (heap p r)"
    "port (heap (snd (getNextServer p sticky rnd)) r) = port (heap p r)"
    "servers (snd (getNextServer p sticky rnd)) = servers p"
    "weightedServerList (snd (getNextServer p sticky rnd)) = weightedServerList p"
    "next_ref (snd (getNextServer p sticky rnd)) = next_ref p"
    "healthCheck (snd (getNextServer p sticky rnd)) = healthCheck p"
    using counters_only_heap [OF c, of r] counters_only_fields [OF c] h by simp_all
qed

lemma picked_is_server:
  assumes "weighted_in_sync p"
    and "c \<in> set (getHealthyServers p) \<or>
         (str_includes (algorithm p) ''WEIGHTED'' \<and> c \<in> set (healthyWeightedList p))"
  shows "c \<in> set (servers p)"
  using assms set_expandWeights [of "heap p" "servers p"]
  by (auto simp: getHealthyServers_def healthyWeightedList_def weighted_in_sync_def)

lemma getNextServer_counter:
  assumes inv: "unique_ids p" "weighted_in_sync p"
    and res: "fst (getNextServer p sticky rnd) = Some c"
  shows "activeConnections (heap (snd (getNextServer p sticky rnd)) r) =
         (if r = c then activeConnections (heap p c) + 1 else activeConnections (heap p r))"
proof (cases rule: getNextServer_result [of p sticky rnd])
  case none
  with res show ?thesis by simp
next
  case (some c' p2)
  with res have cc: "c' = c" by simp
  have h: "heap p2 = heap p" "servers p2 = servers p" by (subst some(3), simp)+
  have u: "unique_ids p2" using inv(1) by (simp add: unique_ids_def h)
  have m: "c \<in> set (servers p2)" using picked_is_server [OF inv(2) some(4)] by (simp add: cc h)
  have "sid (heap p c) = sid (heap p2 c)" by (simp add: h)
  then have "snd (getNextServer p sticky rnd) =
     p2\<lparr>heap := (heap p2)(c := (heap p2 c)\<lparr>activeConnections := activeConnections (heap p2 c) + 1\<rparr>)\<rparr>"
    using some(2) incrementConnections_target [OF u m] by (simp add: cc)
  then show ?thesis by (simp add: h)
qed

subsection \<open>The invariants are established and kept\<close>

lemma str_includes_RR: "\<not> str_includes ''ROUND_ROBIN'' ''WEIGHTED''"
  by simp

lemma getNextServer_inv:
  assumes "pool_inv p"
  shows "pool_inv (snd (getNextServer p sticky rnd))"
proof (cases rule: getNextServer_result [of p sticky rnd])
  case none
  with assms show ?thesis by simp
next
  case (some c p2)
  let ?q = "snd (getNextServer p sticky rnd)"
  have co: "counters_only p2 ?q" using some(2) counters_only_increment [of p2] by simp
  have h: "heap p2 = heap p" "servers p2 = servers p" "weightedServerList p2 = weightedServerList p"
    "next_ref p2 = next_ref p"
    by (subst some(3), simp)+
  have "unique_ids ?q" "ids_formed ?q" "list_all (\<lambda>r. r < next_ref ?q) (servers ?q)"
    using assms
    by (simp_all add: pool_inv_def unique_ids_def ids_formed_def getNextServer_frame)
  moreover have "weighted_in_sync ?q"
    using assms some(5)
    by (auto simp: pool_inv_def weighted_in_sync_def counters_only_fields [OF co] h
        expandWeights_def counters_only_heap [OF co])
  moreover have "- 1 \<le> currentIndex ?q"
    using assms some(6) by (simp add: pool_inv_def counters_only_fields [OF co])
  ultimately show ?thesis by (simp add: pool_inv_def)
qed


lemma calculateWeights_fields:
  "heap (calculateWeights p) = heap p" "servers (calculateWeights p) = servers p"
  "algorithm (calculateWeights p) = algorithm p" "currentIndex (calculateWeights p) = currentIndex p"
  "weightedServerList (calculateWeights p) = weightedServerList p"
  "next_ref (calculateWeights p) = next_ref p" "healthCheck (calculateWeights p) = healthCheck p"
  "timerRunning (calculateWeights p) = timerRunning p"
  by (simp_all add: calculateWeights_def Let_def)

lemma recalculateWeightsIfNeeded_fields:
  "heap (recalculateWeightsIfNeeded p) = heap p" "servers (recalculateWeightsIfNeeded p) = servers p"
  "algorithm (recalculateWeightsIfNeeded p) = algorithm p"
  "currentIndex (recalculateWeightsIfNeeded p) = currentIndex p"
  "next_ref (recalculateWeightsIfNeeded p) = next_ref p"
  "healthCheck (recalculateWeightsIfNeeded p) = healthCheck p"
  "timerRunning (recalculateWeightsIfNeeded p) = timerRunning p"
  "weightedServerList (recalculateWeightsIfNeeded p) =
     (if str_includes (algorithm p) ''WEIGHTED'' then expandWeights (heap p) (servers p)
      else weightedServerList p)"
  by (simp_all add: recalculateWeightsIfNeeded_def buildWeightedList_def calculateWeights_fields)

lemma setHealthy_fields:
  "servers (setHealthy p r b) = servers p" "algorithm (setHealthy p r b) = algorithm p"
  "currentIndex (setHealthy p r b) = currentIndex p"
  "weightedServerList (setHealthy p r b) = weightedServerList p"
  "next_ref (setHealthy p r b) = next_ref p" "healthCheck (setHealthy p r b) = healthCheck p"
  "sid (heap (setHealthy p r b) x) = sid (heap p x)"
  "weight (heap (setHealthy p r b) x) = weight (heap p x)"
  "host (heap (setHealthy p r b) x) = host (heap p x)"
  "port (heap (setHealthy p r b) x) = port (heap p x)"
  "activeConnections (heap (setHealthy p r b) x) = activeConnections (heap p x)"
  "healthy (heap (setHealthy p r b) x) = (if x = r then b else healthy (heap p x))"
  by (simp_all add: setHealthy_def)

lemma expandWeights_cong:
  "(\<And>r. r \<in> set rs \<Longrightarrow> weight (h r) = weight (h' r)) \<Longrightarrow> expandWeights h rs = expandWeights h' rs"
  by (induction rs) (simp_all add: expandWeights_def)

lemma recalculateWeightsIfNeeded_inv:
  "pool_inv p \<Longrightarrow> pool_inv (recalculateWeightsIfNeeded p)"
  by (simp add: pool_inv_def unique_ids_def ids_formed_def weighted_in_sync_def
      recalculateWeightsIfNeeded_fields)

lemma setHealthy_inv: "pool_inv p \<Longrightarrow> pool_inv (setHealthy p r b)"
  using expandWeights_cong [of "servers p" "heap (setHealthy p r b)" "heap p"]
  by (simp add: pool_inv_def unique_ids_def ids_formed_def weighted_in_sync_def setHealthy_fields)

lemma markServerUnhealthy_inv: "pool_inv p \<Longrightarrow> pool_inv (markServerUnhealthy p r)"
  by (simp add: markServerUnhealthy_def setHealthy_inv)

lemma probeResponse_inv: "pool_inv p \<Longrightarrow> pool_inv (probeResponse p r statusCode body)"
  by (simp add: probeResponse_def Let_def setHealthy_inv recalculateWeightsIfNeeded_inv)

lemma decrementConnections_inv: "pool_inv p \<Longrightarrow> pool_inv (decrementConnections p i)"
  using counters_only_fields [OF counters_only_decrement [of p i]]
    counters_only_heap [OF counters_only_decrement [of p i]]
    expandWeights_cong [of "servers p" "heap (decrementConnections p i)" "heap p"]
  by (simp add: pool_inv_def unique_ids_def ids_formed_def weighted_in_sync_def)

lemma map_upt_nth: "map (\<lambda>i. f (xs ! (i - n))) [n ..< n + length xs] = map f xs"
  by (rule nth_equalityI) simp_all

lemma allocate_fresh:
  "n \<le> r \<Longrightarrow> r < n + length objs \<Longrightarrow> allocate h n objs r = objs ! (r - n)"
  by (simp add: allocate_def)

lemma allocate_old: "r < n \<Longrightarrow> allocate h n objs r = h r"
  by (simp add: allocate_def)

lemma map_allocate:
  "map (\<lambda>r. f (allocate h n objs r)) [n ..< n + length objs] = map f objs"
  by (rule nth_equalityI) (simp_all add: allocate_def)

lemma list_all_allocate:
  "list_all (\<lambda>r. P (allocate h n objs r)) [n ..< n + length objs] = list_all P objs"
proof -
  have "list_all (\<lambda>r. P (allocate h n objs r)) [n ..< n + length objs] =
        list_all (\<lambda>b. b) (map (\<lambda>r. P (allocate h n objs r)) [n ..< n + length objs])"
    by (simp add: list_all_iff)
  also have "\<dots> = list_all (\<lambda>b. b) (map P objs)" by (simp only: map_allocate)
  also have "\<dots> = list_all P objs" by (simp add: list_all_iff)
  finally show ?thesis .
qed

lemma fresh_servers_inv:
  assumes p: "servers p = [n ..< n + length objs]" "heap p = allocate h n objs"
      "next_ref p = n + length objs" "- 1 \<le> currentIndex p"
    and objs: "distinct (map sid objs)" "list_all (\<lambda>s. sid s = make_id (host s) (port s)) objs"
  shows "pool_inv (recalculateWeightsIfNeeded p)"
proof -
  have "unique_ids p" using objs(1) by (simp add: unique_ids_def p map_allocate)
  moreover have "ids_formed p"
    using objs(2) list_all_allocate [of "\<lambda>s. sid s = make_id (host s) (port s)" h n objs]
    by (simp add: ids_formed_def p)
  moreover have "list_all (\<lambda>r. r < next_ref p) (servers p)" by (simp add: p list_all_iff)
  ultimately show ?thesis using p(4)
    by (simp add: pool_inv_def unique_ids_def ids_formed_def weighted_in_sync_def
        recalculateWeightsIfNeeded_fields)
qed

lemma startHealthChecks_inv: "pool_inv p \<Longrightarrow> pool_inv (startHealthChecks p)"
  by (simp add: pool_inv_def unique_ids_def ids_formed_def weighted_in_sync_def startHealthChecks_def)

lemma ServerPool_inv:
  assumes "distinct (config_ids cfgs)"
  shows "pool_inv (ServerPool cfgs alg hc)"
proof -
  define p0 where "p0 = \<lparr>heap = allocate (\<lambda>r. blank_server) 0 (map newServer cfgs),
                next_ref = length cfgs, servers = [0 ..< length cfgs], algorithm = alg,
                healthCheck = hc, timerRunning = False, currentIndex = - 1, gcdWeight = 0,
                maxWeight = 0, weightedServerList = [], totalWeight = 0\<rparr>"
  have "pool_inv (recalculateWeightsIfNeeded p0)"
  proof (rule fresh_servers_inv [where n = 0 and objs = "map newServer cfgs" and h = "\<lambda>r. blank_server"])
    show "distinct (map sid (map newServer cfgs))"
      using assms by (simp add: config_ids_def newServer_def comp_def)
    show "list_all (\<lambda>s. sid s = make_id (host s) (port s)) (map newServer cfgs)"
      by (simp add: list_all_iff newServer_def)
  qed (simp_all add: p0_def)
  moreover have "ServerPool cfgs alg hc =
     (if hc_enabled hc then startHealthChecks (recalculateWeightsIfNeeded p0)
      else recalculateWeightsIfNeeded p0)"
    by (simp add: ServerPool_def p0_def recalculateWeightsIfNeeded_def)
  ultimately show ?thesis by (simp add: startHealthChecks_inv)
qed

lemma updateServers_inv:
  assumes "distinct (config_ids cfgs)"
  shows "pool_inv (updateServers p cfgs)"
proof -
  define p0 where "p0 = stopHealthChecks p"
  define p2 where "p2 = p0\<lparr>heap := allocate (heap p0) (next_ref p0) (map (updatedServer p0) cfgs),
                  next_ref := next_ref p0 + length cfgs,
                  servers := [next_ref p0 ..< next_ref p0 + length cfgs],
                  currentIndex := - 1\<rparr>"
  have "pool_inv (recalculateWeightsIfNeeded p2)"
  proof (rule fresh_servers_inv [where n = "next_ref p0" and objs = "map (updatedServer p0) cfgs"
        and h = "heap p0"])
    show "distinct (map sid (map (updatedServer p0) cfgs))"
      using assms by (simp add: config_ids_def updatedServer_def comp_def Let_def)
    show "list_all (\<lambda>s. sid s = make_id (host s) (port s)) (map (updatedServer p0) cfgs)"
      by (simp add: list_all_iff updatedServer_def Let_def)
  qed (simp_all add: p2_def)
  moreover have "updateServers p cfgs =
     (if hc_enabled (healthCheck (recalculateWeightsIfNeeded p2))
      then startHealthChecks (recalculateWeightsIfNeeded p2)
      else recalculateWeightsIfNeeded p2)"
    by (simp add: updateServers_def p2_def p0_def Let_def)
  ultimately show ?thesis by (simp add: startHealthChecks_inv)
qed

text \<open>
  Every pool reached from the constructor satisfies the invariants, provided the
  configuration lists never name one \<open>host:port\<close> twice.
\<close>

lemma step_inv: "pool_inv p \<Longrightarrow> valid_operation x \<Longrightarrow> pool_inv (snd (step p x))"
  by (cases x)
    (simp_all add: getNextServer_inv decrementConnections_inv markServerUnhealthy_inv
      probeResponse_inv recalculateWeightsIfNeeded_inv updateServers_inv)

lemma run_inv: "pool_inv p \<Longrightarrow> list_all valid_operation ops \<Longrightarrow> pool_inv (snd (run p ops))"
  by (induction ops arbitrary: p) (simp_all add: split_beta step_inv)

lemma reachable_inv:
  "distinct (config_ids cfgs) \<Longrightarrow> list_all valid_operation ops \<Longrightarrow>
   pool_inv (snd (run (ServerPool cfgs alg hc) ops))"
  by (simp add: ServerPool_inv run_inv)

subsection \<open>The pool of \<^verbatim>\<open>config.js\<close>\<close>

lemma config_ids_config: "config_ids config_servers =
  [''localhost:3001'', ''localhost:3002'', ''localhost:3003'', ''localhost:3004'']"
  by (simp add: config_ids_def config_servers_def make_id_def string_of_nat.simps digit_char_def)

lemma fresh_pool_inv: "pool_inv (fresh_pool alg)"
  unfolding fresh_pool_def by (rule ServerPool_inv) (simp add: config_ids_config)

lemma fresh_pool_servers: "servers (fresh_pool alg) = [0, 1, 2, 3]"
  by (simp add: fresh_pool_def ServerPool_def Let_def config_servers_def
      buildWeightedList_def calculateWeights_fields startHealthChecks_def config_healthCheck_def upt_rec)

lemma fresh_pool_fields:
  "algorithm (fresh_pool alg) = alg" "currentIndex (fresh_pool alg) = - 1"
  "next_ref (fresh_pool alg) = 4" "healthCheck (fresh_pool alg) = config_healthCheck"
  by (simp_all add: fresh_pool_def ServerPool_def Let_def config_servers_def
      buildWeightedList_def calculateWeights_fields startHealthChecks_def config_healthCheck_def)

lemma fresh_pool_heap:
  "heap (fresh_pool alg) 0 = \<lparr>host = ''localhost'', port = 3001, sid = ''localhost:3001'',
     healthy = True, weight = 5, currentWeight = 0, activeConnections = 0\<rparr>"
  "heap (fresh_pool alg) (Suc 0) = \<lparr>host = ''localhost'', port = 3002, sid = ''localhost:3002'',
     healthy = True, weight = 3, currentWeight = 0, activeConnections = 0\<rparr>"
  "heap (fresh_pool alg) 2 = \<lparr>host = ''localhost'', port = 3003, sid = ''localhost:3003'',
     healthy = True, weight = 1, currentWeight = 0, activeConnections = 0\<rparr>"
  "heap (fresh_pool alg) 3 = \<lparr>host = ''localhost'', port = 3004, sid = ''localhost:3004'',
     healthy = True, weight = 1, currentWeight = 0, activeConnections = 0\<rparr>"
  by (simp_all add: fresh_pool_def ServerPool_def Let_def config_servers_def allocate_def
      buildWeightedList_def calculateWeights_fields startHealthChecks_def config_healthCheck_def
      newServer_def make_id_def string_of_nat.simps digit_char_def)

lemma replicate_5: "replicate 5 x = [x, x, x, x, x]"
  by (simp add: eval_nat_numeral)

lemma replicate_3: "replicate 3 x = [x, x, x]"
  by (simp add: eval_nat_numeral)

lemma fresh_pool_weighted:
  "weightedServerList (fresh_pool ''WEIGHTED_ROUND_ROBIN'') = [0, 0, 0, 0, 0, 1, 1, 1, 2, 3]"
proof -
  have "weightedServerList (fresh_pool ''WEIGHTED_ROUND_ROBIN'') =
     expandWeights (heap (fresh_pool ''WEIGHTED_ROUND_ROBIN'')) (servers (fresh_pool ''WEIGHTED_ROUND_ROBIN''))"
    using fresh_pool_inv [of "''WEIGHTED_ROUND_ROBIN''"]
    by (simp add: pool_inv_def weighted_in_sync_def fresh_pool_fields)
  then show ?thesis
    by (simp add: fresh_pool_servers expandWeights_def fresh_pool_heap replicate_5 replicate_3)
qed

lemma fresh_healthy: "getHealthyServers (fresh_pool alg) = [0, 1, 2, 3]"
  by (simp add: getHealthyServers_def fresh_pool_servers fresh_pool_heap)

lemma fresh_pool_first_pick:
  "fst (getNextServer (fresh_pool ''WEIGHTED_ROUND_ROBIN'') None rnd) = Some 0"
  by (simp add: getNextServer_def fresh_healthy stickyTarget_def truthy_def weightedFallback_def
     healthyWeightedList_def fresh_pool_weighted fresh_pool_heap fresh_pool_fields
     applyAlgorithm_def Let_def js_rem_def js_nth_def)

lemma fresh_pool_getServerById:
  "getServerById (fresh_pool alg) ''localhost:3001'' = Some 0"
  "getServerById (fresh_pool alg) ''nowhere:1'' = None"
  by (simp_all add: getServerById_def fresh_pool_servers fresh_pool_heap)

subsection \<open>Pools that differ in their counters only\<close>

lemma counters_only_sym: "counters_only p q \<Longrightarrow> counters_only q p"
  unfolding counters_only_def
proof (intro conjI allI)
  assume a: "q = p\<lparr>heap := heap q\<rparr> \<and>
    (\<forall>r. heap q r = (heap p r)\<lparr>activeConnections := activeConnections (heap q r)\<rparr>)"
  then have q: "q = p\<lparr>heap := heap q\<rparr>" by simp
  have "p = (p\<lparr>heap := heap q\<rparr>)\<lparr>heap := heap p\<rparr>" by simp
  with q show "p = q\<lparr>heap := heap p\<rparr>" by simp
  fix r
  from a have "heap q r = (heap p r)\<lparr>activeConnections := activeConnections (heap q r)\<rparr>"
    by simp
  then have "(heap q r)\<lparr>activeConnections := activeConnections (heap p r)\<rparr> =
     ((heap p r)\<lparr>activeConnections := activeConnections (heap q r)\<rparr>)\<lparr>activeConnections := activeConnections (heap p r)\<rparr>"
    by simp
  then show "heap p r = (heap q r)\<lparr>activeConnections := activeConnections (heap p r)\<rparr>"
    by simp
qed

lemma counters_only_update:
  assumes "counters_only p q"
  shows "counters_only (p\<lparr>algorithm := a\<rparr>) (q\<lparr>algorithm := a\<rparr>)"
    "counters_only (p\<lparr>currentIndex := i\<rparr>) (q\<lparr>currentIndex := i\<rparr>)"
proof -
  from assms have e: "q = p\<lparr>heap := heap q\<rparr>"
    and h: "\<forall>r. heap q r = (heap p r)\<lparr>activeConnections := activeConnections (heap q r)\<rparr>"
    by (simp_all add: counters_only_def)
  have "q\<lparr>algorithm := a\<rparr> = (p\<lparr>heap := heap q\<rparr>)\<lparr>algorithm := a\<rparr>" using e by simp
  then show "counters_only (p\<lparr>algorithm := a\<rparr>) (q\<lparr>algorithm := a\<rparr>)"
    using h by (simp add: counters_only_def)
  have "q\<lparr>currentIndex := i\<rparr> = (p\<lparr>heap := heap q\<rparr>)\<lparr>currentIndex := i\<rparr>" using e by simp
  then show "counters_only (p\<lparr>currentIndex := i\<rparr>) (q\<lparr>currentIndex := i\<rparr>)"
    using h by (simp add: counters_only_def)
qed

lemma counters_only_selection:
  assumes "counters_only p q"
  shows "getHealthyServers q = getHealthyServers p"
    "healthyWeightedList q = healthyWeightedList p"
    "stickyTarget q sticky = stickyTarget p sticky"
    "getServerById q i = getServerById p i"
  by (simp_all add: getHealthyServers_def healthyWeightedList_def stickyTarget_def getServerById_def
      counters_only_fields [OF assms] counters_only_heap [OF assms])

lemma counters_only_incrementConnections:
  assumes "counters_only p q"
  shows "counters_only (incrementConnections p i) (incrementConnections q j)"
proof -
  have "counters_only (incrementConnections p i) p"
    by (rule counters_only_sym) (rule counters_only_increment)
  then have "counters_only (incrementConnections p i) q"
    using assms by (rule counters_only_trans)
  then show ?thesis using counters_only_increment [of q j] by (rule counters_only_trans)
qed

lemma counters_only_applyAlgorithm:
  assumes "counters_only p q"
  shows "fst (applyAlgorithm q hw rnd) = fst (applyAlgorithm p hw rnd)"
    "counters_only (snd (applyAlgorithm p hw rnd)) (snd (applyAlgorithm q hw rnd))"
  using assms counters_only_update(2) [OF assms]
  by (simp_all add: applyAlgorithm_def Let_def counters_only_selection [OF assms]
      counters_only_fields [OF assms])

lemma getNextServer_unfold:
  "getNextServer p sticky rnd =
     (if getHealthyServers p = [] then (None, p)
      else case stickyTarget p sticky of
        Some t \<Rightarrow> (Some t, incrementConnections p (sid (heap p t)))
      | None \<Rightarrow>
          (let p1 = (if str_includes (algorithm p) ''WEIGHTED'' \<and> healthyWeightedList p = []
                     then p\<lparr>algorithm := ''ROUND_ROBIN''\<rparr> else p);
               r = applyAlgorithm p1 (healthyWeightedList p) rnd;
               c = (case fst r of Some c \<Rightarrow> c | None \<Rightarrow> hd (getHealthyServers p))
           in (Some c, incrementConnections (snd r) (sid (heap p c)))))"
proof (cases "getHealthyServers p = []")
  case True
  then show ?thesis by (simp add: getNextServer_def)
next
  case nonempty: False
  show ?thesis
  proof (cases "stickyTarget p sticky")
    case (Some t)
    then show ?thesis using nonempty by (simp add: getNextServer_def)
  next
    case None
    define p1 where "p1 = (if str_includes (algorithm p) ''WEIGHTED'' \<and> healthyWeightedList p = []
           then p\<lparr>algorithm := ''ROUND_ROBIN''\<rparr> else p)"
    define r where "r = applyAlgorithm p1 (healthyWeightedList p) rnd"
    have p1: "p1 = p\<lparr>algorithm := algorithm p1\<rparr>" by (simp add: p1_def)
    have "snd r = p1\<lparr>currentIndex := currentIndex (snd r)\<rparr>"
      unfolding r_def by (rule applyAlgorithm_snd)
    then have e: "snd r = (p\<lparr>algorithm := algorithm p1\<rparr>)\<lparr>currentIndex := currentIndex (snd r)\<rparr>"
      using p1 by simp
    have h: "heap (snd r) = heap p" "servers (snd r) = servers p"
      by (subst e, simp)+
    then have hs: "getHealthyServers (snd r) = getHealthyServers p"
      by (simp add: getHealthyServers_def)
    show ?thesis
      using nonempty None
      by (cases "fst r")
        (simp_all add: getNextServer_def weightedFallback_healthy p1_def [symmetric] split_beta
          r_def [symmetric] hs h js_nth_zero Let_def)
  qed
qed

lemma getNextServer_counters_only:
  assumes co: "counters_only p q"
  shows "fst (getNextServer q sticky rnd) = fst (getNextServer p sticky rnd) \<and>
    counters_only (snd (getNextServer p sticky rnd)) (snd (getNextServer q sticky rnd))"
proof (cases "getHealthyServers p = []")
  case True
  then show ?thesis using co by (simp add: getNextServer_unfold counters_only_selection [OF co])
next
  case nonempty: False
  show ?thesis
  proof (cases "stickyTarget p sticky")
    case (Some t)
    then show ?thesis
      using nonempty counters_only_incrementConnections [OF co]
      by (simp add: getNextServer_unfold counters_only_selection [OF co])
  next
    case None
    define a where "a = (if str_includes (algorithm p) ''WEIGHTED'' \<and> healthyWeightedList p = []
           then ''ROUND_ROBIN'' else algorithm p)"
    have co1: "counters_only (p\<lparr>algorithm := a\<rparr>) (q\<lparr>algorithm := a\<rparr>)"
      using co by (rule counters_only_update)
    have p1: "(if str_includes (algorithm p) ''WEIGHTED'' \<and> healthyWeightedList p = []
           then p\<lparr>algorithm := ''ROUND_ROBIN''\<rparr> else p) = p\<lparr>algorithm := a\<rparr>"
      by (simp add: a_def)
    have q1: "(if str_includes (algorithm p) ''WEIGHTED'' \<and> healthyWeightedList p = []
           then q\<lparr>algorithm := ''ROUND_ROBIN''\<rparr> else q) = q\<lparr>algorithm := a\<rparr>"
      using counters_only_fields(2) [OF co] by (simp add: a_def)
    show ?thesis
      using nonempty None counters_only_applyAlgorithm [OF co1]
        counters_only_incrementConnections
      by (simp add: getNextServer_unfold counters_only_selection [OF co]
          counters_only_fields [OF co] counters_only_heap [OF co] p1 q1 Let_def
          cong: option.case_cong)
  qed
qed

lemma pickSeq_counters_only:
  "counters_only p q \<Longrightarrow> pickSeq q rnds = pickSeq p rnds"
proof (induction rnds arbitrary: p q)
  case Nil
  show ?case by simp
next
  case (Cons rnd rnds)
  from getNextServer_counters_only [OF Cons.prems, of None rnd]
  show ?case using Cons.IH by (simp add: split_beta)
qed

subsection \<open>Sticky ids\<close>

lemma make_id_nonempty: "make_id h pt \<noteq> []"
  by (simp add: make_id_def)

lemma stickyTarget_healthy_id:
  assumes "unique_ids p" "ids_formed p" "b \<in> set (servers p)" "healthy (heap p b)"
  shows "stickyTarget p (Some (sid (heap p b))) = Some b"
proof -
  from assms(2,3) have "sid (heap p b) \<noteq> []"
    by (auto simp: ids_formed_def list_all_iff make_id_nonempty)
  moreover have "distinct (map (\<lambda>r. sid (heap p r)) (getHealthyServers p))"
    using assms(1) unfolding unique_ids_def getHealthyServers_def by (rule distinct_map_filter)
  moreover have "b \<in> set (getHealthyServers p)"
    using assms(3,4) by (simp add: getHealthyServers_def)
  ultimately show ?thesis
    using find_distinct_map [of "\<lambda>r. sid (heap p r)" "getHealthyServers p" b]
    by (simp add: stickyTarget_def truthy_def)
qed

lemma stickyTarget_no_match:
  assumes "\<And>r. r \<in> set (servers p) \<Longrightarrow> healthy (heap p r) \<Longrightarrow> sid (heap p r) \<noteq> s"
  shows "stickyTarget p (Some s) = None"
  using assms by (auto simp: stickyTarget_def getHealthyServers_def find_None_iff)

lemma getNextServer_sticky_cong:
  "stickyTarget p a = stickyTarget p b \<Longrightarrow> getNextServer p a rnd = getNextServer p b rnd"
  by (simp add: getNextServer_def)

lemma stickyTarget_absent: "stickyTarget p None = None"
  by (simp add: stickyTarget_def truthy_def)

lemma degraded_pool_inv: "pool_inv (degraded_pool alg)"
  unfolding degraded_pool_def by (rule markServerUnhealthy_inv) (rule fresh_pool_inv)

lemma degraded_pool_servers: "servers (degraded_pool alg) = [0, 1, 2, 3]"
  by (simp add: degraded_pool_def markServerUnhealthy_def setHealthy_fields fresh_pool_servers)

lemma degraded_pool_fields:
  "algorithm (degraded_pool alg) = alg" "currentIndex (degraded_pool alg) = - 1"
  "weightedServerList (degraded_pool alg) = weightedServerList (fresh_pool alg)"
  by (simp_all add: degraded_pool_def markServerUnhealthy_def setHealthy_fields fresh_pool_fields)

lemma degraded_pool_heap:
  "heap (degraded_pool alg) 0 = \<lparr>host = ''localhost'', port = 3001, sid = ''localhost:3001'',
     healthy = True, weight = 5, currentWeight = 0, activeConnections = 0\<rparr>"
  "heap (degraded_pool alg) (Suc 0) = \<lparr>host = ''localhost'', port = 3002, sid = ''localhost:3002'',
     healthy = False, weight = 3, currentWeight = 0, activeConnections = 0\<rparr>"
  "heap (degraded_pool alg) 2 = \<lparr>host = ''localhost'', port = 3003, sid = ''localhost:3003'',
     healthy = True, weight = 1, currentWeight = 0, activeConnections = 0\<rparr>"
  "heap (degraded_pool alg) 3 = \<lparr>host = ''localhost'', port = 3004, sid = ''localhost:3004'',
     healthy = True, weight = 1, currentWeight = 0, activeConnections = 0\<rparr>"
  by (simp_all add: degraded_pool_def markServerUnhealthy_def setHealthy_def fresh_pool_heap)

subsection \<open>Reconfiguration\<close>

lemma foldl_map_upd_find:
  "foldl (\<lambda>m r. m(f r \<mapsto> r)) m0 rs i =
     (case find (\<lambda>r. f r = i) (rev rs) of Some r \<Rightarrow> Some r | None \<Rightarrow> m0 i)"
  by (induction rs rule: rev_induct) (auto split: option.splits)

lemma existingServers_find:
  "existingServers p i = find (\<lambda>r. sid (heap p r) = i) (rev (servers p))"
  by (simp add: existingServers_def foldl_map_upd_find split: option.splits)

lemma find_rev_distinct:
  "distinct (map f xs) \<Longrightarrow> find (\<lambda>r. f r = i) (rev xs) = find (\<lambda>r. f r = i) xs"
proof (cases "find (\<lambda>r. f r = i) xs")
  case None
  then have "find (\<lambda>r. f r = i) (rev xs) = None" by (simp add: find_None_iff)
  with None show ?thesis by simp
next
  case (Some x)
  assume d: "distinct (map f xs)"
  from Some have x: "x \<in> set xs" "f x = i" by (auto dest: find_mem)
  have "distinct (map f (rev xs))" using d by (simp add: rev_map [symmetric])
  from find_distinct_map [OF this, of x] x show ?thesis using Some by simp
qed

lemma existingServers_unique:
  "unique_ids p \<Longrightarrow> existingServers p i = getServerById p i"
  by (simp add: existingServers_find getServerById_def unique_ids_def find_rev_distinct)

lemma stopHealthChecks_fields:
  "heap (stopHealthChecks p) = heap p" "servers (stopHealthChecks p) = servers p"
  "next_ref (stopHealthChecks p) = next_ref p" "algorithm (stopHealthChecks p) = algorithm p"
  "healthCheck (stopHealthChecks p) = healthCheck p"
  "weightedServerList (stopHealthChecks p) = weightedServerList p"
  by (simp_all add: stopHealthChecks_def)

lemma existingServers_stop: "existingServers (stopHealthChecks p) = existingServers p"
  by (simp add: existingServers_def stopHealthChecks_fields)

lemma updatedServer_stop: "updatedServer (stopHealthChecks p) = updatedServer p"
  by (rule ext)
    (simp add: updatedServer_def existingServers_stop stopHealthChecks_fields Let_def
      cong: option.case_cong)

lemma updateServers_fields:
  "servers (updateServers p cfgs) = [next_ref p ..< next_ref p + length cfgs]"
  "heap (updateServers p cfgs) = allocate (heap p) (next_ref p) (map (updatedServer p) cfgs)"
  "next_ref (updateServers p cfgs) = next_ref p + length cfgs"
  "currentIndex (updateServers p cfgs) = - 1"
  "algorithm (updateServers p cfgs) = algorithm p"
  "healthCheck (updateServers p cfgs) = healthCheck p"
  by (simp_all add: updateServers_def Let_def recalculateWeightsIfNeeded_fields
      startHealthChecks_def stopHealthChecks_fields updatedServer_stop)

lemma updateServers_nth:
  assumes "j < length cfgs"
  shows "heap (updateServers p cfgs) (servers (updateServers p cfgs) ! j) = updatedServer p (cfgs ! j)"
  using assms by (simp add: updateServers_fields allocate_def)

subsection \<open>Health flags along a run\<close>

lemma probeResponse_fields:
  "healthy (heap (probeResponse p r statusCode body) x) =
     (if x = r then probeVerdict (healthCheck p) statusCode body else healthy (heap p x))"
  "next_ref (probeResponse p r statusCode body) = next_ref p"
  "healthCheck (probeResponse p r statusCode body) = healthCheck p"
  by (simp_all add: probeResponse_def Let_def recalculateWeightsIfNeeded_fields setHealthy_fields)

lemma id_downD: "id_down p i \<Longrightarrow> r \<in> set (servers p) \<Longrightarrow> sid (heap p r) = i \<Longrightarrow> \<not> healthy (heap p r)"
  by (auto simp: id_down_def list_all_iff)

lemma id_downI:
  "(\<And>r. r \<in> set (servers p) \<Longrightarrow> sid (heap p r) = i \<Longrightarrow> \<not> healthy (heap p r)) \<Longrightarrow> id_down p i"
  by (auto simp: id_down_def list_all_iff)

lemma getNextServer_is_server:
  assumes "weighted_in_sync p" "fst (getNextServer p sticky rnd) = Some c"
  shows "c \<in> set (servers p)"
proof (cases rule: getNextServer_result [of p sticky rnd])
  case none
  with assms show ?thesis by simp
next
  case (some c' p2)
  with assms(2) have "c' = c" by simp
  with picked_is_server [OF assms(1) some(4)] show ?thesis by simp
qed

lemma probeResponse_frame:
  "servers (probeResponse p r statusCode body) = servers p"
  "sid (heap (probeResponse p r statusCode body) x) = sid (heap p x)"
  by (simp_all add: probeResponse_def Let_def recalculateWeightsIfNeeded_fields setHealthy_fields)

lemma markServerUnhealthy_id_down:
  assumes "unique_ids p" "b \<in> set (servers p)"
  shows "id_down (markServerUnhealthy p b) (sid (heap p b))"
proof (rule id_downI)
  fix r assume r: "r \<in> set (servers (markServerUnhealthy p b))"
    "sid (heap (markServerUnhealthy p b) r) = sid (heap p b)"
  then have m: "r \<in> set (servers p)" and e: "sid (heap p r) = sid (heap p b)"
    by (simp_all add: markServerUnhealthy_def setHealthy_fields)
  have "getServerById p (sid (heap p r)) = Some r"
    using assms(1) m by (rule getServerById_unique)
  moreover have "getServerById p (sid (heap p b)) = Some b"
    using assms by (rule getServerById_unique)
  ultimately have "Some r = Some b" by (simp only: e)
  then have "r = b" by (simp only: option.inject)
  then show "\<not> healthy (heap (markServerUnhealthy p b) r)"
    by (simp add: markServerUnhealthy_def setHealthy_fields)
qed

lemma updateServers_id_down:
  assumes u: "unique_ids p" and d: "id_down p i"
    and k: "\<not> (i \<in> set (config_ids cfgs) \<and> getServerById p i = None)"
  shows "id_down (updateServers p cfgs) i"
proof (rule id_downI)
  fix r assume r: "r \<in> set (servers (updateServers p cfgs))"
    and s: "sid (heap (updateServers p cfgs) r) = i"
  from r obtain j where j: "j < length cfgs" "r = next_ref p + j"
    by (auto simp: updateServers_fields intro: that [of "r - next_ref p"])
  then have h: "heap (updateServers p cfgs) r = updatedServer p (cfgs ! j)"
    by (simp add: updateServers_fields allocate_def)
  have m: "make_id (cfg_host (cfgs ! j)) (cfg_port (cfgs ! j)) = i"
    using s by (simp add: h updatedServer_def Let_def)
  then have "i \<in> set (config_ids cfgs)"
    using j(1) by (auto simp: config_ids_def intro!: image_eqI [of _ _ "cfgs ! j"])
  with k obtain e where e: "getServerById p i = Some e" by auto
  then have "e \<in> set (servers p)" "sid (heap p e) = i" by (auto dest: getServerById_mem)
  with d have "\<not> healthy (heap p e)" by (rule id_downD)
  then show "\<not> healthy (heap (updateServers p cfgs) r)"
    using e by (simp add: h updatedServer_def Let_def m existingServers_unique [OF u])
qed

lemma step_keeps_id_down:
  assumes inv: "pool_inv p" and d: "id_down p i" and nb: "\<not> brings_back p i x"
  shows "id_down (snd (step p x)) i"
proof (cases x)
  case (Pick sticky rnd)
  with d show ?thesis by (simp add: id_down_def getNextServer_frame)
next
  case (Release s)
  with d show ?thesis
    using counters_only_fields [OF counters_only_decrement [of p s]]
      counters_only_heap [OF counters_only_decrement [of p s]]
    by (simp add: id_down_def)
next
  case (MarkUnhealthy r)
  with d show ?thesis
    by (auto simp: id_down_def list_all_iff markServerUnhealthy_def setHealthy_fields)
next
  case (ProbeResponse r statusCode body)
  with d nb show ?thesis
    by (auto simp: id_down_def list_all_iff probeResponse_fields probeResponse_frame)
next
  case SweepDone
  with d show ?thesis by (simp add: id_down_def recalculateWeightsIfNeeded_fields)
next
  case (UpdateServers cfgs)
  from inv have "unique_ids p" by (simp add: pool_inv_def)
  from updateServers_id_down [OF this d] nb UpdateServers show ?thesis by simp
qed

lemma step_avoids_id:
  assumes inv: "pool_inv p" and d: "id_down p i"
  shows "map_option (\<lambda>r. sid (heap (snd (step p x)) r)) (fst (step p x)) \<noteq> Some i"
proof (cases x)
  case (Pick sticky rnd)
  show ?thesis
  proof (cases "fst (getNextServer p sticky rnd)")
    case None
    with Pick show ?thesis by simp
  next
    case (Some c)
    from inv have "weighted_in_sync p" by (simp add: pool_inv_def)
    from getNextServer_is_server [OF this Some] have "c \<in> set (servers p)" .
    moreover have "healthy (heap p c)" using Some by (rule getNextServer_healthy)
    ultimately have "sid (heap p c) \<noteq> i" using d by (auto dest: id_downD)
    with Pick Some show ?thesis by (simp add: getNextServer_frame)
  qed
qed simp_all

lemma run_avoids_id:
  "pool_inv p \<Longrightarrow> id_down p i \<Longrightarrow> undisturbed p i ops \<Longrightarrow> Some i \<notin> set (pickedIds p ops)"
proof (induction ops arbitrary: p)
  case Nil
  show ?case by simp
next
  case (Cons x ops)
  from Cons.prems have v: "valid_operation x" and nb: "\<not> brings_back p i x"
    and u: "undisturbed (snd (step p x)) i ops" by simp_all
  have "pool_inv (snd (step p x))" using Cons.prems(1) v by (rule step_inv)
  moreover have "id_down (snd (step p x)) i" using Cons.prems(1,2) nb by (rule step_keeps_id_down)
  ultimately have rest: "Some i \<notin> set (pickedIds (snd (step p x)) ops)"
    using u by (rule Cons.IH)
  define a where "a = map_option (\<lambda>r. sid (heap (snd (step p x)) r)) (fst (step p x))"
  have first: "a \<noteq> Some i"
    unfolding a_def using Cons.prems(1,2) by (rule step_avoids_id)
  have e: "pickedIds p (x # ops) = a # pickedIds (snd (step p x)) ops"
    by (simp add: split_beta a_def)
  from rest first show ?case unfolding e by auto
qed

subsection \<open>The weighted list\<close>

lemma healthyWeightedList_sync:
  "weightedServerList p = expandWeights (heap p) (servers p) \<Longrightarrow>
   healthyWeightedList p = expandWeights (heap p) (getHealthyServers p)"
  by (simp add: healthyWeightedList_def getHealthyServers_def filter_expandWeights)

lemma step_keeps_sync:
  assumes w: "weightedServerList p = expandWeights (heap p) (servers p)"
    and a: "str_includes (algorithm p) ''WEIGHTED''"
  shows "weightedServerList (snd (step p x)) =
         expandWeights (heap (snd (step p x))) (servers (snd (step p x)))"
proof (cases x)
  case (Pick sticky rnd)
  have "expandWeights (heap (snd (getNextServer p sticky rnd))) (servers p) =
        expandWeights (heap p) (servers p)"
    by (rule expandWeights_cong) (simp add: getNextServer_frame)
  with w Pick show ?thesis by (simp add: getNextServer_frame)
next
  case (Release i)
  note c = counters_only_decrement [of p i]
  have "expandWeights (heap (decrementConnections p i)) (servers p) =
        expandWeights (heap p) (servers p)"
    by (rule expandWeights_cong) (simp add: counters_only_heap [OF c])
  with w Release show ?thesis by (simp add: counters_only_fields [OF c])
next
  case (MarkUnhealthy r)
  have "expandWeights (heap (setHealthy p r False)) (servers p) =
        expandWeights (heap p) (servers p)"
    by (rule expandWeights_cong) (simp add: setHealthy_fields)
  with w MarkUnhealthy show ?thesis by (simp add: markServerUnhealthy_def setHealthy_fields)
next
  case (ProbeResponse r statusCode body)
  let ?p1 = "setHealthy p r (probeVerdict (healthCheck p) statusCode body)"
  have "expandWeights (heap ?p1) (servers p) = expandWeights (heap p) (servers p)"
    by (rule expandWeights_cong) (simp add: setHealthy_fields)
  with w a ProbeResponse show ?thesis
    by (simp add: probeResponse_def Let_def recalculateWeightsIfNeeded_fields setHealthy_fields)
next
  case SweepDone
  with a show ?thesis by (simp add: recalculateWeightsIfNeeded_fields)
next
  case (UpdateServers cfgs)
  with a show ?thesis
    by (simp add: updateServers_def Let_def recalculateWeightsIfNeeded_fields
      startHealthChecks_def stopHealthChecks_fields)
qed

subsection \<open>More concrete pools\<close>

lemma loaded_pool_servers: "servers loaded_pool = [0, 1, 2, 3]"
  using counters_only_fields(1) [OF counters_only_increment]
  by (simp add: loaded_pool_def degraded_pool_servers)

lemma loaded_pool_heap:
  "heap loaded_pool 0 = \<lparr>host = ''localhost'', port = 3001, sid = ''localhost:3001'',
     healthy = True, weight = 5, currentWeight = 0, activeConnections = 0\<rparr>"
  "heap loaded_pool (Suc 0) = \<lparr>host = ''localhost'', port = 3002, sid = ''localhost:3002'',
     healthy = False, weight = 3, currentWeight = 0, activeConnections = 1\<rparr>"
  "heap loaded_pool 2 = \<lparr>host = ''localhost'', port = 3003, sid = ''localhost:3003'',
     healthy = True, weight = 1, currentWeight = 0, activeConnections = 0\<rparr>"
  "heap loaded_pool 3 = \<lparr>host = ''localhost'', port = 3004, sid = ''localhost:3004'',
     healthy = True, weight = 1, currentWeight = 0, activeConnections = 0\<rparr>"
  by (simp_all add: loaded_pool_def incrementConnections_def getServerById_def
      degraded_pool_servers degraded_pool_heap)

lemma loaded_pool_unique: "unique_ids loaded_pool"
  by (simp add: unique_ids_def loaded_pool_servers loaded_pool_heap)

lemma reconfig_ids:
  "make_id ''localhost'' 3002 = ''localhost:3002''" "make_id ''localhost'' 3005 = ''localhost:3005''"
  by (simp_all add: make_id_def string_of_nat.simps digit_char_def)

subsection \<open>Counting in a rotation\<close>

lemma count_list_map_Some: "count_list (map Some xs) (Some b) = count_list xs b"
  by (induction xs) simp_all

lemma count_list_replicate: "count_list (replicate n r) b = (if r = b then n else 0)"
  by (induction n) auto

lemma count_list_rotate: "count_list (rotate n xs) b = count_list xs b"
proof -
  have "count_list xs b = count_list (take (n mod length xs) xs @ drop (n mod length xs) xs) b"
    by simp
  then show ?thesis by (simp add: rotate_drop_take del: append_take_drop_id)
qed

lemma map_nth_rotate:
  "map (\<lambda>j. xs ! ((n + j) mod length xs)) [0 ..< length xs] = rotate n xs"
  by (rule nth_equalityI) (simp_all add: nth_rotate)

lemma cyclic_window:
  assumes "xs \<noteq> []"
  shows "count_list (map (\<lambda>j. Some (xs ! ((n + j) mod length xs))) [0 ..< k * length xs]) (Some b) =
         k * count_list xs b"
proof (induction k)
  case 0
  show ?case by simp
next
  case (Suc k)
  let ?L = "length xs"
  let ?f = "\<lambda>j. Some (xs ! ((n + j) mod ?L))"
  have "[0 ..< Suc k * ?L] = [0 ..< k * ?L] @ [k * ?L ..< k * ?L + ?L]"
    using upt_add_eq_append [of 0 "k * ?L" ?L] by (simp add: add.commute)
  moreover have "[k * ?L ..< k * ?L + ?L] = map (\<lambda>i. i + k * ?L) [0 ..< ?L]"
    by (simp add: map_add_upt add.commute)
  moreover have "map ?f (map (\<lambda>i. i + k * ?L) [0 ..< ?L]) = map Some (rotate n xs)"
    by (simp add: map_nth_rotate [symmetric] comp_def add.assoc [symmetric])
  ultimately have "map ?f [0 ..< Suc k * ?L] = map ?f [0 ..< k * ?L] @ map Some (rotate n xs)"
    by simp
  then show ?case using Suc.IH by (simp add: count_list_map_Some count_list_rotate)
qed

lemma count_list_expandWeights:
  "distinct rs \<Longrightarrow> b \<in> set rs \<Longrightarrow> count_list (expandWeights h rs) b = nat (weight (h b))"
proof (induction rs)
  case Nil
  then show ?case by simp
next
  case (Cons r rs)
  have e: "expandWeights h (r # rs) = replicate (nat (weight (h r))) r @ expandWeights h rs"
    by (simp add: expandWeights_def)
  show ?case
  proof (cases "b = r")
    case True
    with Cons.prems have "b \<notin> set (expandWeights h rs)"
      using set_expandWeights [of h rs] by auto
    then show ?thesis using True by (simp add: e count_list_replicate)
  next
    case False
    with Cons show ?thesis by (simp add: e count_list_replicate)
  qed
qed

lemma length_expandWeights:
  "length (expandWeights h rs) = (\<Sum>r\<leftarrow>rs. nat (weight (h r)))"
  by (induction rs) (simp_all add: expandWeights_def)


subsection \<open>Weighted round robin on a healthy pool\<close>

lemma wrr_ready_lists:
  assumes "wrr_ready p"
  shows "getHealthyServers p = servers p" "healthyWeightedList p = weightedServerList p"
    "weightedServerList p = expandWeights (heap p) (servers p)"
proof -
  from assms have h: "list_all (\<lambda>r. healthy (heap p r)) (servers p)"
    and s: "weightedServerList p = expandWeights (heap p) (servers p)"
    by (simp_all add: wrr_ready_def pool_inv_def weighted_in_sync_def)
  from h show g: "getHealthyServers p = servers p"
    by (simp add: getHealthyServers_def list_all_iff)
  show "healthyWeightedList p = weightedServerList p"
    using healthyWeightedList_sync [OF s] g s by simp
  show "weightedServerList p = expandWeights (heap p) (servers p)" by (rule s)
qed

lemma wrr_step:
  assumes r: "wrr_ready p" and w: "weightedServerList p \<noteq> []"
  defines "i \<equiv> nat (currentIndex p + 1) mod length (weightedServerList p)"
  shows "fst (getNextServer p None rnd) = Some (weightedServerList p ! i)"
    and "wrr_ready (snd (getNextServer p None rnd))"
    and "weightedServerList (snd (getNextServer p None rnd)) = weightedServerList p"
    and "currentIndex (snd (getNextServer p None rnd)) = int i"
proof -
  let ?W = "weightedServerList p"
  let ?q = "snd (getNextServer p None rnd)"
  note l = wrr_ready_lists [OF r]
  from r have alg: "algorithm p = ''WEIGHTED_ROUND_ROBIN''" and inv: "pool_inv p"
    and ci: "- 1 \<le> currentIndex p"
    by (simp_all add: wrr_ready_def pool_inv_def)
  have ne: "getHealthyServers p \<noteq> []"
    using w l set_expandWeights [of "heap p" "servers p"] by auto
  have L: "0 < int (length ?W)" using w by simp
  have rem: "js_rem (currentIndex p + 1) (int (length ?W)) = int i"
    using ci L by (simp add: js_rem_mod i_def zmod_int)
  have "i < length ?W" using w by (simp add: i_def)
  then have nth: "js_nth ?W (int i) = Some (?W ! i)" by (simp add: js_nth_def)
  have app: "applyAlgorithm p ?W rnd = (Some (?W ! i), p\<lparr>currentIndex := int i\<rparr>)"
    using w by (simp add: applyAlgorithm_def alg Let_def rem nth)
  have g: "getNextServer p None rnd =
     (Some (?W ! i), incrementConnections (p\<lparr>currentIndex := int i\<rparr>) (sid (heap p (?W ! i))))"
    using ne w by (simp add: getNextServer_unfold stickyTarget_absent l(2) app Let_def)
  show "fst (getNextServer p None rnd) = Some (?W ! i)" by (simp add: g)
  have co: "counters_only (p\<lparr>currentIndex := int i\<rparr>) ?q"
    by (simp add: g counters_only_increment)
  show "weightedServerList ?q = ?W" "currentIndex ?q = int i"
    by (simp_all add: counters_only_fields [OF co])
  have "pool_inv ?q" using inv by (rule getNextServer_inv)
  moreover have "algorithm ?q = ''WEIGHTED_ROUND_ROBIN''"
    by (simp add: counters_only_fields [OF co] alg)
  moreover have "list_all (\<lambda>r. healthy (heap ?q r)) (servers ?q)"
    using r by (simp add: wrr_ready_def getNextServer_frame)
  ultimately show "wrr_ready ?q" by (simp add: wrr_ready_def)
qed

lemma wrr_pickSeq:
  assumes "wrr_ready p" "weightedServerList p \<noteq> []"
  shows "pickSeq p rnds =
     map (\<lambda>j. Some (weightedServerList p ! ((nat (currentIndex p + 1) + j) mod
        length (weightedServerList p)))) [0 ..< length rnds]"
  using assms
proof (induction rnds arbitrary: p)
  case Nil
  show ?case by simp
next
  case (Cons rnd rnds)
  let ?W = "weightedServerList p"
  let ?n = "nat (currentIndex p + 1)"
  let ?q = "snd (getNextServer p None rnd)"
  note st = wrr_step [OF Cons.prems, of rnd]
  have W: "weightedServerList ?q = ?W" by (rule st(3))
  have n': "nat (currentIndex ?q + 1) = Suc (?n mod length ?W)"
    by (simp add: st(4))
  have "pickSeq ?q rnds =
     map (\<lambda>j. Some (?W ! ((Suc (?n mod length ?W) + j) mod length ?W))) [0 ..< length rnds]"
    using Cons.IH [OF st(2)] Cons.prems(2) by (simp add: W n')
  also have "\<dots> = map (\<lambda>j. Some (?W ! ((?n + Suc j) mod length ?W))) [0 ..< length rnds]"
  proof -
    have "Suc (?n mod length ?W + j) mod length ?W = (?n + Suc j) mod length ?W" for j
      using mod_add_left_eq [of ?n "length ?W" "Suc j"] by simp
    then show ?thesis by simp
  qed
  finally have tl: "pickSeq ?q rnds =
     map (\<lambda>j. Some (?W ! ((?n + Suc j) mod length ?W))) [0 ..< length rnds]" .
  have "[0 ..< length (rnd # rnds)] = 0 # map Suc [0 ..< length rnds]"
    by (simp add: upt_conv_Cons map_Suc_upt del: upt_Suc)
  then show ?case using st(1) tl by (simp add: split_beta comp_def del: upt_Suc)
qed

lemma wrr_count:
  assumes r: "wrr_ready p" and b: "b \<in> set (servers p)"
    and n: "length rnds = k * (\<Sum>r\<leftarrow>servers p. nat (weight (heap p r)))"
  shows "count_list (pickSeq p rnds) (Some b) = k * nat (weight (heap p b))"
proof -
  let ?W = "weightedServerList p"
  note l = wrr_ready_lists [OF r]
  from r have "unique_ids p" by (simp add: wrr_ready_def pool_inv_def)
  then have "distinct (servers p)" by (simp add: unique_ids_def distinct_map)
  then have c: "count_list ?W b = nat (weight (heap p b))"
    using b by (simp add: l(3) count_list_expandWeights)
  have len: "length rnds = k * length ?W" using n by (simp add: l(3) length_expandWeights)
  show ?thesis
  proof (cases "?W = []")
    case True
    with len c show ?thesis by simp
  next
    case False
    from wrr_pickSeq [OF r False, of rnds] cyclic_window [OF False, of "nat (currentIndex p + 1)" k b]
    show ?thesis by (simp add: len c)
  qed
qed


lemma fresh_pool_wrr_ready: "wrr_ready (fresh_pool ''WEIGHTED_ROUND_ROBIN'')"
  by (simp add: wrr_ready_def fresh_pool_inv fresh_pool_fields fresh_pool_servers fresh_pool_heap)

lemma upt_10: "[0 ..< 10] = [0, 1, 2, 3, 4, 5, 6, 7, 8, 9]"
  by (simp add: upt_rec)

lemma fresh_pool_ten_picks:
  assumes "length rnds = 10"
  shows "pickSeq (fresh_pool ''WEIGHTED_ROUND_ROBIN'') rnds = map Some [0, 0, 0, 0, 0, 1, 1, 1, 2, 3]"
  using wrr_pickSeq [OF fresh_pool_wrr_ready, of rnds] assms
  by (simp add: fresh_pool_weighted fresh_pool_fields upt_10 del: upt_Suc)

subsection \<open>Evaluating calls on concrete pools\<close>

lemma replicate_2: "replicate 2 x = [x, x]"
  by (simp add: numeral_2_eq_2)

lemma drain_pool_eq:
  "drain_pool = \<lparr>heap = allocate (\<lambda>r. blank_server) 0
       [\<lparr>host = ''localhost'', port = 3001, sid = ''localhost:3001'', healthy = True, weight = 0,
          currentWeight = 0, activeConnections = 0\<rparr>,
        \<lparr>host = ''localhost'', port = 3002, sid = ''localhost:3002'', healthy = True, weight = 2,
          currentWeight = 0, activeConnections = 0\<rparr>],
     next_ref = 2, servers = [0, 1], algorithm = ''WEIGHTED_ROUND_ROBIN'',
     healthCheck = config_healthCheck, timerRunning = True, currentIndex = - 1,
     gcdWeight = 2, maxWeight = 2, weightedServerList = [1, 1], totalWeight = 2\<rparr>"
  by (simp add: drain_pool_def ServerPool_def drain_servers_def Let_def newServer_def make_id_def
      string_of_nat.simps digit_char_def buildWeightedList_def calculateWeights_def
      getHealthyServers_def allocate_def expandWeights_def startHealthChecks_def
      config_healthCheck_def js_gcd.simps js_rem_def upt_rec replicate_2)


lemmas eval_defs = getNextServer_def getHealthyServers_def stickyTarget_def truthy_def
  weightedFallback_def healthyWeightedList_def applyAlgorithm_def Let_def js_rem_def js_nth_def
  incrementConnections_def decrementConnections_def getServerById_def markServerUnhealthy_def
  setHealthy_def probeResponse_def probeVerdict_def recalculateWeightsIfNeeded_def
  allocate_def config_healthCheck_def

lemma updateServers_weighted:
  "weightedServerList (updateServers p cfgs) =
     (if str_includes (algorithm p) ''WEIGHTED''
      then expandWeights (heap (updateServers p cfgs)) (servers (updateServers p cfgs))
      else weightedServerList p)"
  by (simp add: updateServers_def Let_def recalculateWeightsIfNeeded_fields
      startHealthChecks_def stopHealthChecks_fields)

lemma reload_trace_undisturbed:
  "undisturbed (markServerUnhealthy (fresh_pool ''WEIGHTED_ROUND_ROBIN'') 0) ''localhost:3001''
     reload_trace"
  by (simp add: reload_trace_def eval_defs updateServers_fields updateServers_weighted
      buildWeightedList_def calculateWeights_fields expandWeights_def updatedServer_def
      existingServers_def fresh_pool_servers fresh_pool_heap fresh_pool_fields fresh_pool_weighted
      config_ids_def config_servers_def make_id_def string_of_nat.simps digit_char_def
      replicate_5 replicate_3 upt_rec)

section \<open>Picking without a sticky id\<close>

text \<open>
  Claim C1. A call \<^verbatim>\<open>getNextServer()\<close> with no sticky id returns nothing exactly when
  no server of the pool is healthy. When it returns a backend, that backend is healthy
  in the pool the call leaves behind, and, in a pool whose identities are unique and
  whose weighted list is in step with its servers (two invariants of the data model,
  which hold in every pool reached from the constructor, \<open>reachable_inv\<close>), its
  \<^verbatim>\<open>activeConnections\<close> is one more than before the call. This holds for every
  policy name and every random draw.
\<close>

theorem pick_without_sticky_id:
  "(fst (getNextServer p None rnd) = None \<longleftrightarrow> getHealthyServers p = []) \<and>
   (\<forall>c. fst (getNextServer p None rnd) = Some c \<longrightarrow>
      healthy (heap (snd (getNextServer p None rnd)) c) \<and>
      (unique_ids p \<and> weighted_in_sync p \<longrightarrow>
         activeConnections (heap (snd (getNextServer p None rnd)) c) =
           activeConnections (heap p c) + 1))"
proof (intro conjI allI impI)
  show "fst (getNextServer p None rnd) = None \<longleftrightarrow> getHealthyServers p = []"
    by (cases rule: getNextServer_result [of p None rnd]) simp_all
next
  fix c assume "fst (getNextServer p None rnd) = Some c"
  then show "healthy (heap (snd (getNextServer p None rnd)) c)"
    by (simp add: getNextServer_frame getNextServer_healthy)
next
  fix c assume "fst (getNextServer p None rnd) = Some c" "unique_ids p \<and> weighted_in_sync p"
  then show "activeConnections (heap (snd (getNextServer p None rnd)) c) =
           activeConnections (heap p c) + 1"
    using getNextServer_counter [of p None rnd c c] by simp
qed

theorem pick_without_sticky_id_witness:
  "fst (getNextServer (fresh_pool ''WEIGHTED_ROUND_ROBIN'') None 0) = Some 0 \<and>
   unique_ids (fresh_pool ''WEIGHTED_ROUND_ROBIN'') \<and>
   weighted_in_sync (fresh_pool ''WEIGHTED_ROUND_ROBIN'') \<and>
   getHealthyServers (fresh_pool ''WEIGHTED_ROUND_ROBIN'') \<noteq> [] \<and>
   healthy (heap (snd (getNextServer (fresh_pool ''WEIGHTED_ROUND_ROBIN'') None 0)) 0) \<and>
   activeConnections (heap (snd (getNextServer (fresh_pool ''WEIGHTED_ROUND_ROBIN'') None 0)) 0) =
     activeConnections (heap (fresh_pool ''WEIGHTED_ROUND_ROBIN'') 0) + 1"
  using pick_without_sticky_id [of "fresh_pool ''WEIGHTED_ROUND_ROBIN''" 0]
    fresh_pool_first_pick [of 0] fresh_pool_inv [of "''WEIGHTED_ROUND_ROBIN''"]
  by (simp add: pool_inv_def)

section \<open>Releasing a connection\<close>

lemma decrementConnections_nonneg:
  "0 \<le> activeConnections (heap p r) \<Longrightarrow>
   0 \<le> activeConnections (heap (decrementConnections p i) r)"
  by (auto simp: decrementConnections_def split: option.splits)

lemma foldl_decrementConnections_nonneg:
  "0 \<le> activeConnections (heap p r) \<Longrightarrow>
   0 \<le> activeConnections (heap (foldl decrementConnections p ids) r)"
  by (induction ids arbitrary: p) (simp_all add: decrementConnections_nonneg)

text \<open>
  Claim C8. Whatever sequence of ids \<^verbatim>\<open>decrementConnections\<close> is called with, a
  backend whose counter is not negative keeps a counter that is not negative. A call
  for a backend whose counter is zero, and a call with an id that no server of the pool
  has, return the pool unchanged.
\<close>

theorem release_never_negative:
  "(0 \<le> activeConnections (heap p r) \<longrightarrow>
      0 \<le> activeConnections (heap (foldl decrementConnections p ids) r)) \<and>
   (getServerById p i = Some r \<and> activeConnections (heap p r) = 0 \<longrightarrow>
      decrementConnections p i = p) \<and>
   (getServerById p i = None \<longrightarrow> decrementConnections p i = p)"
  by (simp add: foldl_decrementConnections_nonneg) (simp add: decrementConnections_def)

theorem release_never_negative_witness:
  "0 \<le> activeConnections (heap (fresh_pool ''ROUND_ROBIN'') 0) \<and>
   0 \<le> activeConnections (heap (foldl decrementConnections (fresh_pool ''ROUND_ROBIN'')
          [''localhost:3001'', ''localhost:3001'', ''nowhere:1'']) 0) \<and>
   getServerById (fresh_pool ''ROUND_ROBIN'') ''localhost:3001'' = Some 0 \<and>
   activeConnections (heap (fresh_pool ''ROUND_ROBIN'') 0) = 0 \<and>
   decrementConnections (fresh_pool ''ROUND_ROBIN'') ''localhost:3001'' =
     fresh_pool ''ROUND_ROBIN'' \<and>
   getServerById (fresh_pool ''ROUND_ROBIN'') ''nowhere:1'' = None \<and>
   decrementConnections (fresh_pool ''ROUND_ROBIN'') ''nowhere:1'' = fresh_pool ''ROUND_ROBIN''"
  using release_never_negative [of "fresh_pool ''ROUND_ROBIN''" 0
      "[''localhost:3001'', ''localhost:3001'', ''nowhere:1'']" "''localhost:3001''"]
    release_never_negative [of "fresh_pool ''ROUND_ROBIN''" 0 "[]" "''nowhere:1''"]
  by (simp add: fresh_pool_getServerById fresh_pool_heap)

section \<open>Sticky sessions\<close>

text \<open>
  Claim C5. In a pool whose identities are unique and of the form \<open>host:port\<close> (two
  invariants of the data model), a call with the
  id of a healthy backend of the pool returns that backend, whatever the policy name,
  the cursor and the random draw are. A call with an id that no server has, or that
  names a server which is not healthy, returns the same backend and leaves the same
  pool as the call with no sticky id.
\<close>

theorem sticky_precedence:
  "unique_ids p \<and> ids_formed p \<Longrightarrow>
   (b \<in> set (servers p) \<and> healthy (heap p b) \<longrightarrow>
      fst (getNextServer p (Some (sid (heap p b))) rnd) = Some b) \<and>
   (getServerById p s = None \<or> (\<exists>r. getServerById p s = Some r \<and> \<not> healthy (heap p r)) \<longrightarrow>
      getNextServer p (Some s) rnd = getNextServer p None rnd)"
proof (intro conjI impI)
  assume inv: "unique_ids p \<and> ids_formed p" and "b \<in> set (servers p) \<and> healthy (heap p b)"
  then have "stickyTarget p (Some (sid (heap p b))) = Some b"
    by (simp add: stickyTarget_healthy_id)
  then show "fst (getNextServer p (Some (sid (heap p b))) rnd) = Some b"
    by (simp add: getNextServer_sticky)
next
  assume inv: "unique_ids p \<and> ids_formed p"
    and s: "getServerById p s = None \<or> (\<exists>r. getServerById p s = Some r \<and> \<not> healthy (heap p r))"
  have "stickyTarget p (Some s) = None"
  proof (rule stickyTarget_no_match)
    fix x assume x: "x \<in> set (servers p)" "healthy (heap p x)"
    show "sid (heap p x) \<noteq> s"
    proof
      assume e: "sid (heap p x) = s"
      from inv have "unique_ids p" by simp
      from getServerById_unique [OF this x(1)] e have "getServerById p s = Some x" by simp
      with s x(2) show False by simp
    qed
  qed
  then show "getNextServer p (Some s) rnd = getNextServer p None rnd"
    by (simp add: getNextServer_sticky_cong stickyTarget_absent)
qed

theorem sticky_precedence_witness:
  "unique_ids (degraded_pool ''ROUND_ROBIN'') \<and> ids_formed (degraded_pool ''ROUND_ROBIN'') \<and>
   0 \<in> set (servers (degraded_pool ''ROUND_ROBIN'')) \<and>
   healthy (heap (degraded_pool ''ROUND_ROBIN'') 0) \<and>
   fst (getNextServer (degraded_pool ''ROUND_ROBIN'') (Some ''localhost:3001'') 7) = Some 0 \<and>
   getServerById (degraded_pool ''ROUND_ROBIN'') ''localhost:3002'' = Some 1 \<and>
   \<not> healthy (heap (degraded_pool ''ROUND_ROBIN'') 1) \<and>
   getNextServer (degraded_pool ''ROUND_ROBIN'') (Some ''localhost:3002'') 7 =
     getNextServer (degraded_pool ''ROUND_ROBIN'') None 7"
  using sticky_precedence [where p = "degraded_pool ''ROUND_ROBIN''" and b = 0
      and s = "''localhost:3002''" and rnd = 7]
    degraded_pool_inv [of "''ROUND_ROBIN''"]
  by (simp add: pool_inv_def degraded_pool_servers degraded_pool_heap getServerById_def)

text \<open>
  Claim C10. In a pool whose identities are unique and of the form \<open>host:port\<close>, a
  call with the id of a healthy backend of the pool returns that backend and a pool that differs from the old one
  in one place only: the \<^verbatim>\<open>activeConnections\<close> of that backend, which is one higher.
  The cursor, the weighted list, the policy name and every other backend are as before,
  and every later run of calls without a sticky id returns the backends it would have
  returned had the sticky call not happened.
\<close>

theorem sticky_pick_frame:
  "unique_ids p \<and> ids_formed p \<and> b \<in> set (servers p) \<and> healthy (heap p b) \<longrightarrow>
   getNextServer p (Some (sid (heap p b))) rnd =
     (Some b, p\<lparr>heap := (heap p)(b := (heap p b)\<lparr>activeConnections :=
                 activeConnections (heap p b) + 1\<rparr>)\<rparr>) \<and>
   (\<forall>rnds. pickSeq (snd (getNextServer p (Some (sid (heap p b))) rnd)) rnds = pickSeq p rnds)"
proof (intro impI conjI allI)
  assume a: "unique_ids p \<and> ids_formed p \<and> b \<in> set (servers p) \<and> healthy (heap p b)"
  then have st: "stickyTarget p (Some (sid (heap p b))) = Some b"
    by (simp add: stickyTarget_healthy_id)
  from a have "unique_ids p" "b \<in> set (servers p)" by simp_all
  then show "getNextServer p (Some (sid (heap p b))) rnd =
     (Some b, p\<lparr>heap := (heap p)(b := (heap p b)\<lparr>activeConnections :=
                 activeConnections (heap p b) + 1\<rparr>)\<rparr>)"
    by (simp add: getNextServer_sticky [OF st] incrementConnections_target)
  fix rnds
  have "counters_only p (snd (getNextServer p (Some (sid (heap p b))) rnd))"
    by (simp add: getNextServer_sticky [OF st] counters_only_increment)
  then show "pickSeq (snd (getNextServer p (Some (sid (heap p b))) rnd)) rnds = pickSeq p rnds"
    by (rule pickSeq_counters_only)
qed

theorem sticky_pick_frame_witness:
  "unique_ids (fresh_pool ''ROUND_ROBIN'') \<and> ids_formed (fresh_pool ''ROUND_ROBIN'') \<and>
   1 \<in> set (servers (fresh_pool ''ROUND_ROBIN'')) \<and>
   healthy (heap (fresh_pool ''ROUND_ROBIN'') 1) \<and>
   getNextServer (fresh_pool ''ROUND_ROBIN'') (Some ''localhost:3002'') 0 =
     (Some 1, (fresh_pool ''ROUND_ROBIN'')\<lparr>heap := (heap (fresh_pool ''ROUND_ROBIN''))
        (1 := (heap (fresh_pool ''ROUND_ROBIN'') 1)\<lparr>activeConnections := 1\<rparr>)\<rparr>) \<and>
   pickSeq (snd (getNextServer (fresh_pool ''ROUND_ROBIN'') (Some ''localhost:3002'') 0)) [0, 0] =
     pickSeq (fresh_pool ''ROUND_ROBIN'') [0, 0]"
proof -
  let ?P = "fresh_pool ''ROUND_ROBIN''"
  have h: "unique_ids ?P \<and> ids_formed ?P \<and> 1 \<in> set (servers ?P) \<and> healthy (heap ?P 1)"
    using fresh_pool_inv [of "''ROUND_ROBIN''"]
    by (simp add: pool_inv_def fresh_pool_servers fresh_pool_heap)
  have i: "sid (heap ?P 1) = ''localhost:3002''" "activeConnections (heap ?P 1) + 1 = 1"
    by (simp_all add: fresh_pool_heap)
  from sticky_pick_frame [of ?P 1 0] h
  have "getNextServer ?P (Some (sid (heap ?P 1))) 0 =
     (Some 1, ?P\<lparr>heap := (heap ?P)(1 := (heap ?P 1)\<lparr>activeConnections :=
                 activeConnections (heap ?P 1) + 1\<rparr>)\<rparr>) \<and>
     (\<forall>rnds. pickSeq (snd (getNextServer ?P (Some (sid (heap ?P 1))) 0)) rnds = pickSeq ?P rnds)"
    by (rule mp)
  then have "getNextServer ?P (Some ''localhost:3002'') 0 =
     (Some 1, ?P\<lparr>heap := (heap ?P)(1 := (heap ?P 1)\<lparr>activeConnections := 1\<rparr>)\<rparr>)"
    and "pickSeq (snd (getNextServer ?P (Some ''localhost:3002'') 0)) [0, 0] = pickSeq ?P [0, 0]"
    unfolding i by blast+
  with h show ?thesis by blast
qed

section \<open>Reconfiguration\<close>

text \<open>
  Claim C7. \<^verbatim>\<open>updateServers\<close> builds one backend per entry of the new list and
  resets the cursor to \<open>- 1\<close>. When the identities of the old pool are unique, the
  backend built for an entry has the id \<open>host:port\<close> of the entry; if a server of the old
  pool has that id, the new backend has its \<^verbatim>\<open>healthy\<close> flag and its
  \<^verbatim>\<open>activeConnections\<close>; if none has, the new backend is healthy with no connection.
\<close>

theorem updateServers_preserves:
  "length (servers (updateServers p cfgs)) = length cfgs \<and>
   currentIndex (updateServers p cfgs) = - 1 \<and>
   (unique_ids p \<and> j < length cfgs \<longrightarrow>
     (let new = heap (updateServers p cfgs) (servers (updateServers p cfgs) ! j)
      in sid new = make_id (cfg_host (cfgs ! j)) (cfg_port (cfgs ! j)) \<and>
         (\<forall>old \<in> set (servers p). sid (heap p old) = sid new \<longrightarrow>
            healthy new = healthy (heap p old) \<and>
            activeConnections new = activeConnections (heap p old)) \<and>
         (sid new \<notin> set (map (\<lambda>r. sid (heap p r)) (servers p)) \<longrightarrow>
            healthy new \<and> activeConnections new = 0)))"
proof (intro impI conjI)
  show "length (servers (updateServers p cfgs)) = length cfgs"
    by (simp add: updateServers_fields)
  show "currentIndex (updateServers p cfgs) = - 1"
    by (simp add: updateServers_fields)
  assume a: "unique_ids p \<and> j < length cfgs"
  define i where "i = make_id (cfg_host (cfgs ! j)) (cfg_port (cfgs ! j))"
  have new: "heap (updateServers p cfgs) (servers (updateServers p cfgs) ! j) = updatedServer p (cfgs ! j)"
    using a by (simp add: updateServers_nth)
  have ex: "existingServers p i = getServerById p i"
    using a by (simp add: existingServers_unique)
  have kept: "healthy (updatedServer p (cfgs ! j)) = healthy (heap p old) \<and>
      activeConnections (updatedServer p (cfgs ! j)) = activeConnections (heap p old)"
    if "old \<in> set (servers p)" "sid (heap p old) = i" for old
  proof -
    from a that have "getServerById p i = Some old" using getServerById_unique [of p old] by auto
    then show ?thesis by (simp add: updatedServer_def Let_def i_def [symmetric] ex)
  qed
  have fresh: "healthy (updatedServer p (cfgs ! j)) \<and> activeConnections (updatedServer p (cfgs ! j)) = 0"
    if "i \<notin> set (map (\<lambda>r. sid (heap p r)) (servers p))"
  proof -
    from that have "getServerById p i = None" by (auto simp: getServerById_def find_None_iff)
    then show ?thesis by (simp add: updatedServer_def Let_def i_def [symmetric] ex)
  qed
  have sidn: "sid (updatedServer p (cfgs ! j)) = i" by (simp add: updatedServer_def Let_def i_def)
  show "let new = heap (updateServers p cfgs) (servers (updateServers p cfgs) ! j)
    in sid new = make_id (cfg_host (cfgs ! j)) (cfg_port (cfgs ! j)) \<and>
       (\<forall>old \<in> set (servers p). sid (heap p old) = sid new \<longrightarrow>
          healthy new = healthy (heap p old) \<and>
          activeConnections new = activeConnections (heap p old)) \<and>
       (sid new \<notin> set (map (\<lambda>r. sid (heap p r)) (servers p)) \<longrightarrow>
          healthy new \<and> activeConnections new = 0)"
    unfolding Let_def new sidn using kept fresh by (simp add: i_def)
qed

theorem updateServers_preserves_witness:
  "unique_ids loaded_pool \<and> (1::nat) < length reconfig_servers \<and>
   currentIndex (updateServers loaded_pool reconfig_servers) = - 1 \<and>
   1 \<in> set (servers loaded_pool) \<and>
   sid (heap loaded_pool 1) = ''localhost:3002'' \<and>
   \<not> healthy (heap loaded_pool 1) \<and> activeConnections (heap loaded_pool 1) = 1 \<and>
   sid (heap (updateServers loaded_pool reconfig_servers)
          (servers (updateServers loaded_pool reconfig_servers) ! 0)) = ''localhost:3002'' \<and>
   \<not> healthy (heap (updateServers loaded_pool reconfig_servers)
          (servers (updateServers loaded_pool reconfig_servers) ! 0)) \<and>
   activeConnections (heap (updateServers loaded_pool reconfig_servers)
          (servers (updateServers loaded_pool reconfig_servers) ! 0)) = 1 \<and>
   sid (heap (updateServers loaded_pool reconfig_servers)
          (servers (updateServers loaded_pool reconfig_servers) ! 1)) = ''localhost:3005'' \<and>
   ''localhost:3005'' \<notin> set (map (\<lambda>r. sid (heap loaded_pool r)) (servers loaded_pool)) \<and>
   healthy (heap (updateServers loaded_pool reconfig_servers)
          (servers (updateServers loaded_pool reconfig_servers) ! 1)) \<and>
   activeConnections (heap (updateServers loaded_pool reconfig_servers)
          (servers (updateServers loaded_pool reconfig_servers) ! 1)) = 0"
  using updateServers_preserves [of loaded_pool reconfig_servers 0]
    updateServers_preserves [of loaded_pool reconfig_servers 1]
    loaded_pool_unique
  by (simp add: Let_def loaded_pool_servers loaded_pool_heap reconfig_servers_def reconfig_ids)

section \<open>Unhealthy backends\<close>

text \<open>
  Claim C4. Let \<open>b\<close> be a server of a pool that satisfies the invariants of the data
  model, and mark it unhealthy. Take any run of picks (any sticky id, any draw, whatever
  the policy name is or becomes), releases, health transitions of any object, sweep
  ends and reconfigurations that is undisturbed for the identity of \<open>b\<close>: no probe
  response sets the flag of an object with that identity to true, and no
  reconfiguration creates the identity anew after an earlier one dropped it. Then no
  pick of the run returns a backend with the identity of \<open>b\<close>, neither the object
  \<open>b\<close> itself nor the object a reconfiguration has put in its place.
\<close>

theorem unhealthy_id_never_picked:
  "pool_inv p \<and> b \<in> set (servers p) \<and>
   undisturbed (markServerUnhealthy p b) (sid (heap p b)) ops \<longrightarrow>
   Some (sid (heap p b)) \<notin> set (pickedIds (markServerUnhealthy p b) ops)"
proof
  assume a: "pool_inv p \<and> b \<in> set (servers p) \<and>
    undisturbed (markServerUnhealthy p b) (sid (heap p b)) ops"
  then have "unique_ids p" by (simp add: pool_inv_def)
  with a have d: "id_down (markServerUnhealthy p b) (sid (heap p b))"
    by (simp add: markServerUnhealthy_id_down)
  from a have inv: "pool_inv (markServerUnhealthy p b)" by (simp add: markServerUnhealthy_inv)
  from a have u: "undisturbed (markServerUnhealthy p b) (sid (heap p b)) ops" by simp
  from inv d u show "Some (sid (heap p b)) \<notin> set (pickedIds (markServerUnhealthy p b) ops)"
    by (rule run_avoids_id)
qed

theorem unhealthy_id_never_picked_witness:
  "pool_inv (fresh_pool ''WEIGHTED_ROUND_ROBIN'') \<and>
   0 \<in> set (servers (fresh_pool ''WEIGHTED_ROUND_ROBIN'')) \<and>
   sid (heap (fresh_pool ''WEIGHTED_ROUND_ROBIN'') 0) = ''localhost:3001'' \<and>
   undisturbed (markServerUnhealthy (fresh_pool ''WEIGHTED_ROUND_ROBIN'') 0) ''localhost:3001''
     reload_trace \<and>
   Some ''localhost:3001'' \<notin>
     set (pickedIds (markServerUnhealthy (fresh_pool ''WEIGHTED_ROUND_ROBIN'') 0) reload_trace)"
  using unhealthy_id_never_picked [of "fresh_pool ''WEIGHTED_ROUND_ROBIN''" 0 reload_trace]
    fresh_pool_inv [of "''WEIGHTED_ROUND_ROBIN''"] reload_trace_undisturbed
  by (simp add: fresh_pool_servers fresh_pool_heap)

section \<open>The weighted list and health\<close>

text \<open>
  Claim C3 as the specification states it fails: \<^verbatim>\<open>buildWeightedList\<close> expands every
  configured server, and a health flip does not rebuild the list. After the second
  backend of the pool of \<^verbatim>\<open>config.js\<close> is marked unhealthy, the weighted list still
  holds it.
\<close>

theorem weighted_list_keeps_unhealthy:
  "1 \<in> set (weightedServerList (markServerUnhealthy (fresh_pool ''WEIGHTED_ROUND_ROBIN'') 1)) \<and>
   \<not> healthy (heap (markServerUnhealthy (fresh_pool ''WEIGHTED_ROUND_ROBIN'') 1) 1) \<and>
   weightedServerList (markServerUnhealthy (fresh_pool ''WEIGHTED_ROUND_ROBIN'') 1) \<noteq>
     expandWeights (heap (markServerUnhealthy (fresh_pool ''WEIGHTED_ROUND_ROBIN'') 1))
       (getHealthyServers (markServerUnhealthy (fresh_pool ''WEIGHTED_ROUND_ROBIN'') 1))"
  by (simp add: markServerUnhealthy_def setHealthy_fields fresh_pool_weighted fresh_pool_servers
      fresh_pool_heap getHealthyServers_def expandWeights_def replicate_5)

text \<open>
  Claim C3 as amended. Under a policy whose name contains \<^verbatim>\<open>WEIGHTED\<close>, if the
  weighted list is the expansion of the server array (each configured server, healthy or
  not, repeated \<open>weight\<close> times in configured order), it still is after any operation:
  a health flip, the end of a sweep, a reconfiguration, a pick or a release. The list
  that a pick filters out of it, \<open>healthyWeightedList\<close>, holds exactly the healthy
  servers, each repeated \<open>weight\<close> times in configured order, and no unhealthy one.
\<close>

theorem weighted_list_after_change:
  "weightedServerList p = expandWeights (heap p) (servers p) \<and>
   str_includes (algorithm p) ''WEIGHTED'' \<longrightarrow>
   (let q = snd (step p x)
    in weightedServerList q = expandWeights (heap q) (servers q) \<and>
       healthyWeightedList q = expandWeights (heap q) (getHealthyServers q) \<and>
       (\<forall>r \<in> set (healthyWeightedList q). healthy (heap q r)))"
proof
  assume a: "weightedServerList p = expandWeights (heap p) (servers p) \<and>
    str_includes (algorithm p) ''WEIGHTED''"
  define q where "q = snd (step p x)"
  have s: "weightedServerList q = expandWeights (heap q) (servers q)"
    unfolding q_def using a by (simp add: step_keeps_sync)
  moreover have "\<forall>r \<in> set (healthyWeightedList q). healthy (heap q r)"
    by (simp add: healthyWeightedList_def)
  ultimately show "let q = snd (step p x)
    in weightedServerList q = expandWeights (heap q) (servers q) \<and>
       healthyWeightedList q = expandWeights (heap q) (getHealthyServers q) \<and>
       (\<forall>r \<in> set (healthyWeightedList q). healthy (heap q r))"
    unfolding Let_def q_def [symmetric] by (simp add: healthyWeightedList_sync)
qed

theorem weighted_list_after_change_witness:
  "weightedServerList (fresh_pool ''WEIGHTED_ROUND_ROBIN'') =
     expandWeights (heap (fresh_pool ''WEIGHTED_ROUND_ROBIN''))
       (servers (fresh_pool ''WEIGHTED_ROUND_ROBIN'')) \<and>
   str_includes (algorithm (fresh_pool ''WEIGHTED_ROUND_ROBIN'')) ''WEIGHTED'' \<and>
   weightedServerList (snd (step (fresh_pool ''WEIGHTED_ROUND_ROBIN'') (MarkUnhealthy 1))) =
     [0, 0, 0, 0, 0, 1, 1, 1, 2, 3] \<and>
   healthyWeightedList (snd (step (fresh_pool ''WEIGHTED_ROUND_ROBIN'') (MarkUnhealthy 1))) =
     [0, 0, 0, 0, 0, 2, 3]"
  using weighted_list_after_change [of "fresh_pool ''WEIGHTED_ROUND_ROBIN''" "MarkUnhealthy 1"]
    fresh_pool_inv [of "''WEIGHTED_ROUND_ROBIN''"]
  by (simp add: Let_def pool_inv_def weighted_in_sync_def fresh_pool_fields
      markServerUnhealthy_def setHealthy_fields fresh_pool_servers fresh_pool_heap
      getHealthyServers_def expandWeights_def replicate_5 replicate_3)

section \<open>Weighted round robin\<close>

text \<open>
  Claim C6. Take a pool under \<^verbatim>\<open>WEIGHTED_ROUND_ROBIN\<close> that satisfies the invariants
  of the data model and whose servers are all healthy, at any position of the cursor.
  In \<open>k\<close> times the sum of the weights successive calls without sticky id, each server
  of the pool is returned exactly \<open>k\<close> times its weight (a weight counts as the number
  of times \<^verbatim>\<open>buildWeightedList\<close> pushes the server: \<open>nat w\<close>). For the fresh pool
  of \<^verbatim>\<open>config.js\<close>, whose backends \<open>0, 1, 2, 3\<close> have weights \<open>5, 3, 1, 1\<close>, ten
  calls return five times the first, three times the second, then the third and the
  fourth, in this order.
\<close>

theorem wrr_distribution:
  "(wrr_ready p \<and> b \<in> set (servers p) \<and>
    length rnds = k * (\<Sum>r\<leftarrow>servers p. nat (weight (heap p r))) \<longrightarrow>
      count_list (pickSeq p rnds) (Some b) = k * nat (weight (heap p b))) \<and>
   (length draws = 10 \<longrightarrow>
      pickSeq (fresh_pool ''WEIGHTED_ROUND_ROBIN'') draws =
        map Some [0, 0, 0, 0, 0, 1, 1, 1, 2, 3] \<and>
      map (\<lambda>r. sid (heap (fresh_pool ''WEIGHTED_ROUND_ROBIN'') r)) [0, 1, 2, 3] =
        [''localhost:3001'', ''localhost:3002'', ''localhost:3003'', ''localhost:3004''] \<and>
      map (\<lambda>r. weight (heap (fresh_pool ''WEIGHTED_ROUND_ROBIN'') r)) [0, 1, 2, 3] = [5, 3, 1, 1])"
  by (simp add: wrr_count fresh_pool_ten_picks fresh_pool_heap)

theorem wrr_distribution_witness:
  "wrr_ready (fresh_pool ''WEIGHTED_ROUND_ROBIN'') \<and>
   1 \<in> set (servers (fresh_pool ''WEIGHTED_ROUND_ROBIN'')) \<and>
   length (replicate 20 (0::int)) =
     2 * (\<Sum>r\<leftarrow>servers (fresh_pool ''WEIGHTED_ROUND_ROBIN'').
            nat (weight (heap (fresh_pool ''WEIGHTED_ROUND_ROBIN'') r))) \<and>
   count_list (pickSeq (fresh_pool ''WEIGHTED_ROUND_ROBIN'') (replicate 20 0)) (Some 1) = 6 \<and>
   length (replicate 10 (0::int)) = 10 \<and>
   pickSeq (fresh_pool ''WEIGHTED_ROUND_ROBIN'') (replicate 10 0) =
     map Some [0, 0, 0, 0, 0, 1, 1, 1, 2, 3]"
  using wrr_distribution [of "fresh_pool ''WEIGHTED_ROUND_ROBIN''" 1 "replicate 20 0" 2
      "replicate 10 0"] fresh_pool_wrr_ready
  by (simp add: fresh_pool_servers fresh_pool_heap)

section \<open>The fallback to round robin\<close>

text \<open>
  Claim C9 says that the fallback of a weighted policy to \<^verbatim>\<open>ROUND_ROBIN\<close> lasts for
  one call. The source comments the assignment as temporary but never restores the
  field. In the pool with weights \<open>0\<close> and \<open>2\<close>: the second backend is marked
  unhealthy, a pick falls back and returns the first backend; a probe then finds the
  second backend healthy again, so that the filtered weighted list is \<open>[1, 1]\<close>; the next
  two picks still rotate over both backends, the policy field reads
  \<^verbatim>\<open>ROUND_ROBIN\<close>, and the backend of weight \<open>0\<close> is returned.
\<close>

theorem fallback_is_permanent:
  "algorithm drain_pool = ''WEIGHTED_ROUND_ROBIN'' \<and>
   (case run drain_pool [MarkUnhealthy 1, Pick None 0, ProbeResponse 1 200 ''OK'',
                         Pick None 0, Pick None 0] of
      (cs, q) \<Rightarrow>
        cs = [None, Some 0, None, Some 1, Some 0] \<and>
        algorithm q = ''ROUND_ROBIN'' \<and>
        healthyWeightedList q = [1, 1])"
  by (simp add: drain_pool_eq eval_defs)

section \<open>Releases of one request\<close>

text \<open>
  Claim C2 says that exactly one of finish, client abort and upstream error releases the
  backend of a request. The release sites of \<^verbatim>\<open>worker.js\<close> are independent. Two
  requests with the sticky cookie of the first backend are in flight, so its counter is
  \<open>2\<close>. The first request fails upstream: the error callback of \<^verbatim>\<open>proxy.web\<close>
  releases once, and the \<^verbatim>\<open>'close'\<close> listener of the request, which finds the response
  not ended, releases again. The global error listener, when the target it is handed has
  the host and port that form the id of the backend, releases too and ends the response,
  whose \<^verbatim>\<open>'finish'\<close> listener releases again. Either way the counter is \<open>0\<close>
  while the second request is still in flight.
\<close>

theorem upstream_error_releases_twice:
  "(case requestHandler True (Some ''localhost:3001'') (fresh_pool ''ROUND_ROBIN'') 0 of
      (r1, p1) \<Rightarrow>
        (case requestHandler True (Some ''localhost:3001'') p1 0 of
           (r2, p2) \<Rightarrow>
             r1 = Proxied 0 None \<and> r2 = Proxied 0 None \<and>
             activeConnections (heap p2 0) = 2 \<and>
             activeConnections (heap (onEvent p2 0 ProxyCallbackError) 0) = 1 \<and>
             activeConnections
               (heap (onEvent (onEvent p2 0 ProxyCallbackError) 0 (RequestClose False)) 0) = 0 \<and>
             activeConnections
               (heap (onEvent (onEvent p2 0 (ProxyErrorEvent (Some ''localhost'') (Some ''3001'')))
                        0 ResponseFinish) 0) = 0))"
  by (simp add: requestHandler_def eval_defs fresh_pool_servers fresh_pool_heap)

end
